theory Spec2Isabelle
  imports Complex_Main
begin

section \<open>Time values and the calendar of the Date object\<close>

text \<open>
  A Date holds a time value: milliseconds since 1970-01-01T00:00:00Z, here an \<open>int\<close>.
  The abstract operations below are the ones the language standard defines for Date
  (Day, TimeWithinDay, DayFromYear, YearFromTime, MonthFromTime, DateFromTime, WeekDay,
  MakeTime, MakeDay, MakeDate, LocalTime, UTC); the methods that \<open>main.js\<close> calls are
  defined from them the way the standard does. Only valid dates are modelled: a time
  value is always a finite integer (no Invalid Date), and the range limit of TimeClip
  (8.64e15 ms) is not enforced.
\<close>

definition msPerDay :: int where
  "msPerDay = 86400000"

definition msPerHour :: int where
  "msPerHour = 3600000"

definition msPerMinute :: int where
  "msPerMinute = 60000"

definition msPerSecond :: int where
  "msPerSecond = 1000"

definition Day :: "int \<Rightarrow> int" where
  "Day t = t div msPerDay"

definition TimeWithinDay :: "int \<Rightarrow> int" where
  "TimeWithinDay t = t mod msPerDay"

definition DaysInYear :: "int \<Rightarrow> int" where
  "DaysInYear y =
     (if y mod 4 \<noteq> 0 then 365
      else if y mod 100 \<noteq> 0 then 366
      else if y mod 400 \<noteq> 0 then 365
      else 366)"

definition DayFromYear :: "int \<Rightarrow> int" where
  "DayFromYear y =
     365 * (y - 1970) + (y - 1969) div 4 - (y - 1901) div 100 + (y - 1601) div 400"

definition TimeFromYear :: "int \<Rightarrow> int" where
  "TimeFromYear y = msPerDay * DayFromYear y"

text \<open>
  The standard defines YearFromTime(t) as the largest year \<open>y\<close> with
  \<open>TimeFromYear y \<le> t\<close>. \<open>YearFromDay\<close> computes it: an estimate from the mean
  length of a Gregorian year (146097 days in 400 years), corrected by at most one year.
  Lemma \<open>YearFromDay_bounds\<close> below shows that the result is the year the standard asks
  for.
\<close>

definition YearFromDay :: "int \<Rightarrow> int" where
  "YearFromDay d =
     (let y = 1970 + (400 * d) div 146097
      in if d < DayFromYear y then y - 1
         else if DayFromYear (y + 1) \<le> d then y + 1
         else y)"

definition YearFromTime :: "int \<Rightarrow> int" where
  "YearFromTime t = YearFromDay (Day t)"

definition leapDays :: "int \<Rightarrow> int" where
  "leapDays y = (if DaysInYear y = 366 then 1 else 0)"

definition InLeapYear :: "int \<Rightarrow> int" where
  "InLeapYear t = leapDays (YearFromTime t)"

definition DayWithinYear :: "int \<Rightarrow> int" where
  "DayWithinYear t = Day t - DayFromYear (YearFromTime t)"

text \<open>The number of days of a year that precede month \<open>m\<close> (0 = January).\<close>

definition monthStart :: "int \<Rightarrow> int \<Rightarrow> int" where
  "monthStart m leap =
     (if m = 0 then 0
      else if m = 1 then 31
      else if m = 2 then 59 + leap
      else if m = 3 then 90 + leap
      else if m = 4 then 120 + leap
      else if m = 5 then 151 + leap
      else if m = 6 then 181 + leap
      else if m = 7 then 212 + leap
      else if m = 8 then 243 + leap
      else if m = 9 then 273 + leap
      else if m = 10 then 304 + leap
      else 334 + leap)"

definition monthOfDay :: "int \<Rightarrow> int \<Rightarrow> int" where
  "monthOfDay dwy leap =
     (if dwy < 31 then 0
      else if dwy < 59 + leap then 1
      else if dwy < 90 + leap then 2
      else if dwy < 120 + leap then 3
      else if dwy < 151 + leap then 4
      else if dwy < 181 + leap then 5
      else if dwy < 212 + leap then 6
      else if dwy < 243 + leap then 7
      else if dwy < 273 + leap then 8
      else if dwy < 304 + leap then 9
      else if dwy < 334 + leap then 10
      else 11)"

definition MonthFromTime :: "int \<Rightarrow> int" where
  "MonthFromTime t = monthOfDay (DayWithinYear t) (InLeapYear t)"

definition DateFromTime :: "int \<Rightarrow> int" where
  "DateFromTime t = DayWithinYear t - monthStart (MonthFromTime t) (InLeapYear t) + 1"

definition WeekDay :: "int \<Rightarrow> int" where
  "WeekDay t = (Day t + 4) mod 7"

definition HourFromTime :: "int \<Rightarrow> int" where
  "HourFromTime t = (t div msPerHour) mod 24"

definition MinFromTime :: "int \<Rightarrow> int" where
  "MinFromTime t = (t div msPerMinute) mod 60"

definition MakeTime :: "int \<Rightarrow> int \<Rightarrow> int \<Rightarrow> int \<Rightarrow> int" where
  "MakeTime hour mn sec ms = hour * msPerHour + mn * msPerMinute + sec * msPerSecond + ms"

text \<open>
  MakeDay accepts any month and date: months beyond 0..11 carry into the year, and the
  date is added as a day count, so day 0 of January is 31 December of the year before.
\<close>

definition MakeDay :: "int \<Rightarrow> int \<Rightarrow> int \<Rightarrow> int" where
  "MakeDay year month date =
     (let ym = year + month div 12;
          mn = month mod 12
      in DayFromYear ym + monthStart mn (leapDays ym) + date - 1)"

definition MakeDate :: "int \<Rightarrow> int \<Rightarrow> int" where
  "MakeDate day time = day * msPerDay + time"

subsection \<open>The host's time zone\<close>

text \<open>
  Local time is the host environment's. A zone is the function LocalTZA of the standard:
  \<open>tz t True\<close> is the offset of local time from UTC, in milliseconds, at the UTC time
  value \<open>t\<close>; \<open>tz t False\<close> is the offset to use for the local time value \<open>t\<close>.
\<close>

type_synonym tzone = "int \<Rightarrow> bool \<Rightarrow> int"

definition LocalTime :: "tzone \<Rightarrow> int \<Rightarrow> int" where
  "LocalTime tz t = t + tz t True"

definition UTC :: "tzone \<Rightarrow> int \<Rightarrow> int" where
  "UTC tz t = t - tz t False"

definition fixedZone :: "int \<Rightarrow> tzone" where
  "fixedZone off = (\<lambda>t isUTC. off)"

text \<open>
  The zone of the deployment, America/New\_York under the rules in force since 2007:
  Eastern Standard Time is UTC-5; daylight time (UTC-4) runs from 02:00 local standard
  time on the second Sunday of March to 02:00 local daylight time on the first Sunday of
  November. A local time that is skipped or repeated at a transition is read with the
  offset before the transition, as the standard prescribes.
\<close>

definition firstSundayOnOrAfter :: "int \<Rightarrow> int" where
  "firstSundayOnOrAfter day = day + (7 - (day + 4) mod 7) mod 7"

definition dstStartLocal :: "int \<Rightarrow> int" where
  "dstStartLocal y = MakeDate (firstSundayOnOrAfter (MakeDay y 2 8)) (MakeTime 2 0 0 0)"

definition dstEndLocal :: "int \<Rightarrow> int" where
  "dstEndLocal y = MakeDate (firstSundayOnOrAfter (MakeDay y 10 1)) (MakeTime 2 0 0 0)"

definition newYork :: tzone where
  "newYork t isUTC =
     (let y = YearFromTime t;
          dst = (if isUTC
                 then dstStartLocal y + 5 * msPerHour \<le> t \<and> t < dstEndLocal y + 4 * msPerHour
                 else dstStartLocal y + msPerHour \<le> t \<and> t < dstEndLocal y)
      in if dst then - 4 * msPerHour else - 5 * msPerHour)"

subsection \<open>Date constructors and methods used by the program\<close>

text \<open>
  \<open>new Date(year, month, day)\<close> and \<open>Date.UTC(year, month, day, 0, 0, 0)\<close> read a year
  from 0 to 99 as 1900 + year.
\<close>

definition fullYear :: "int \<Rightarrow> int" where
  "fullYear y = (if 0 \<le> y \<and> y \<le> 99 then 1900 + y else y)"

definition newDate :: "tzone \<Rightarrow> int \<Rightarrow> int \<Rightarrow> int \<Rightarrow> int" where
  "newDate tz year month day =
     UTC tz (MakeDate (MakeDay (fullYear year) month day) (MakeTime 0 0 0 0))"

definition DateUTC :: "int \<Rightarrow> int \<Rightarrow> int \<Rightarrow> int" where
  "DateUTC year month day = MakeDate (MakeDay (fullYear year) month day) (MakeTime 0 0 0 0)"

definition getFullYear :: "tzone \<Rightarrow> int \<Rightarrow> int" where
  "getFullYear tz d = YearFromTime (LocalTime tz d)"

definition getMonth :: "tzone \<Rightarrow> int \<Rightarrow> int" where
  "getMonth tz d = MonthFromTime (LocalTime tz d)"

definition getDate :: "tzone \<Rightarrow> int \<Rightarrow> int" where
  "getDate tz d = DateFromTime (LocalTime tz d)"

definition getDay :: "tzone \<Rightarrow> int \<Rightarrow> int" where
  "getDay tz d = WeekDay (LocalTime tz d)"

definition getHours :: "tzone \<Rightarrow> int \<Rightarrow> int" where
  "getHours tz d = HourFromTime (LocalTime tz d)"

definition setDate :: "tzone \<Rightarrow> int \<Rightarrow> int \<Rightarrow> int" where
  "setDate tz d dt =
     (let t = LocalTime tz d
      in UTC tz (MakeDate (MakeDay (YearFromTime t) (MonthFromTime t) dt) (TimeWithinDay t)))"

definition setHours :: "tzone \<Rightarrow> int \<Rightarrow> int \<Rightarrow> int \<Rightarrow> int \<Rightarrow> int \<Rightarrow> int" where
  "setHours tz d hour mn sec ms =
     (let t = LocalTime tz d
      in UTC tz (MakeDate (Day t) (MakeTime hour mn sec ms)))"

section \<open>Numbers\<close>

text \<open>
  The program computes with IEEE doubles, and the language leaves the results of
  \<open>Math.sin\<close>, \<open>Math.cos\<close>, \<open>Math.tan\<close>, \<open>Math.atan\<close>, \<open>Math.asin\<close> and \<open>Math.acos\<close>
  to the implementation (each returns an approximation of the mathematical value). The
  model computes with real numbers and the mathematical functions: it is the program with
  exact arithmetic. There is no NaN and no infinity, and \<open>pi\<close> is the real number.

  In HOL a quotient by zero is zero. The divisor of \<open>cosH\<close> is
  \<open>cosDec L * cos(LAT)\<close>: \<open>cosDec L\<close> is at least 0.9 (lemma \<open>cosDec_bounds\<close>), and
  \<open>cos(LAT)\<close> is positive for a latitude constant from 0 to 45 degrees, as the program's
  is (lemma \<open>cosH_denominator_pos\<close>), and it is 1/2 at 60 degrees; every theorem that
  depends on the value of \<open>cosH\<close> is about one of these configurations. The tangent of
  an odd multiple of 90 degrees is 0 in HOL, where \<open>Math.tan\<close> returns a large number;
  no theorem depends on the right ascension at such a true longitude.

  \<open>jsRem\<close> is the operator \<open>%\<close> on numbers: the remainder of the division truncated
  towards zero, with the sign of the dividend. \<open>Math_round\<close> rounds half up, as
  \<open>Math.round\<close> does.
\<close>

definition jsRem :: "real \<Rightarrow> real \<Rightarrow> real" where
  "jsRem x y = x - y * of_int (if 0 \<le> x / y then \<lfloor>x / y\<rfloor> else \<lceil>x / y\<rceil>)"

definition Math_floor :: "real \<Rightarrow> int" where
  "Math_floor x = \<lfloor>x\<rfloor>"

definition Math_round :: "real \<Rightarrow> int" where
  "Math_round x = \<lfloor>x + 1 / 2\<rfloor>"

section \<open>The program\<close>

subsection \<open>Constants\<close>

text \<open>
  The constants at the head of \<open>main.js\<close> are the fields of a record, so that a theorem
  can speak about the flag \<open>CALIBRATION_ENABLED\<close> being off; \<open>bmh\<close> holds the values the
  file gives them. The reference date \<open>"2025-12-06"\<close> and the reference time \<open>"17:17"\<close>
  are kept as the numbers that Date's parser and \<open>split(":").map(Number)\<close> read from
  those literals (the month is 1-based, as in the string).
\<close>

record config =
  LAT :: real
  LNG :: real
  ZENITH_DEG :: real
  CALIBRATION_ENABLED :: bool
  REFERENCE_SHABBOS :: "int \<times> int \<times> int"
  REFERENCE_MOTZAEI_MAARIV :: "int \<times> int"
  REFERENCE_MAARIV_OFFSET_MIN :: int

definition bmh :: config where
  "bmh = \<lparr> LAT = 41.19392515448243,
           LNG = - 74.02504208449552,
           ZENITH_DEG = 90.0,
           CALIBRATION_ENABLED = True,
           REFERENCE_SHABBOS = (2025, 12, 6),
           REFERENCE_MOTZAEI_MAARIV = (17, 17),
           REFERENCE_MAARIV_OFFSET_MIN = 50 \<rparr>"

subsection \<open>Date helpers\<close>

definition toDateParts :: "tzone \<Rightarrow> int \<Rightarrow> int \<times> int \<times> int" where
  "toDateParts tz date =
     (let d = date
      in (getFullYear tz d, getMonth tz d, getDate tz d))"

text \<open>
  \<open>diff\<close> and \<open>oneDay\<close> are integers, so \<open>Math.floor(diff / oneDay)\<close> is the floor
  division of integers.
\<close>

definition dayOfYear :: "tzone \<Rightarrow> int \<Rightarrow> int" where
  "dayOfYear tz date =
     (let d = date;
          start = newDate tz (getFullYear tz d) 0 0;
          diff = d - start;
          oneDay = 1000 * 60 * 60 * 24
      in diff div oneDay)"

subsection \<open>The sunset algorithm\<close>

definition sin_deg :: "real \<Rightarrow> real" where
  "sin_deg x = sin (x * pi / 180)"

definition cos_deg :: "real \<Rightarrow> real" where
  "cos_deg x = cos (x * pi / 180)"

definition tan_deg :: "real \<Rightarrow> real" where
  "tan_deg x = tan (x * pi / 180)"

text \<open>
  The steps of \<open>noaaSunsetUT\<close>, one definition for each quantity the function names:
  \<open>t\<close>, \<open>M\<close>, \<open>L\<close>, \<open>RA\<close>, \<open>sinDec\<close>, \<open>cosDec\<close> and \<open>cosH\<close>.
\<close>

definition approxTime :: "int \<Rightarrow> real \<Rightarrow> real" where
  "approxTime N lngHour = of_int N + ((18 - lngHour) / 24.0)"

definition meanAnomaly :: "real \<Rightarrow> real" where
  "meanAnomaly t = (0.9856 * t) - 3.289"

definition trueLongitude :: "real \<Rightarrow> real" where
  "trueLongitude M =
     (let L = M + (1.916 * sin_deg M) + (0.020 * sin_deg (2 * M)) + 282.634
      in jsRem (jsRem L 360 + 360) 360)"

definition rightAscension :: "real \<Rightarrow> real" where
  "rightAscension L =
     (let RA = arctan (0.91764 * tan_deg L) * 180 / pi;
          RA = jsRem (jsRem RA 360 + 360) 360;
          Lquadrant = of_int \<lfloor>L / 90\<rfloor> * 90;
          RAquadrant = of_int \<lfloor>RA / 90\<rfloor> * 90;
          RA = RA + (Lquadrant - RAquadrant)
      in RA / 15.0)"

definition sinDec :: "real \<Rightarrow> real" where
  "sinDec L = 0.39782 * sin_deg L"

definition cosDec :: "real \<Rightarrow> real" where
  "cosDec L = cos (arcsin (sinDec L))"

text \<open>
  Line 60 of \<open>main.js\<close>: the latitude in the formula is the global constant \<open>LAT\<close>;
  the parameter \<open>latDeg\<close> of \<open>noaaSunsetUT\<close> does not occur in the function's body.
\<close>

definition cosH :: "config \<Rightarrow> real \<Rightarrow> real \<Rightarrow> real" where
  "cosH cfg L zenithDeg =
     (cos_deg zenithDeg - (sinDec L * sin_deg (LAT cfg))) / (cosDec L * cos_deg (LAT cfg))"

definition noaaSunsetUT :: "config \<Rightarrow> tzone \<Rightarrow> int \<Rightarrow> real \<Rightarrow> real \<Rightarrow> real \<Rightarrow> real option" where
  "noaaSunsetUT cfg tz date latDeg lngDeg zenithDeg =
     (let N = dayOfYear tz date;
          lngHour = lngDeg / 15.0;
          t = approxTime N lngHour;
          M = meanAnomaly t;
          L = trueLongitude M;
          RA = rightAscension L;
          cH = cosH cfg L zenithDeg
      in if cH < - 1 \<or> cH > 1 then None
         else
           (let H = arccos cH * 180 / pi;
                H = H / 15.0;
                T = H + RA - (0.06571 * t) - 6.622;
                UT = T - lngHour;
                UT = jsRem (jsRem UT 24 + 24) 24
            in Some UT))"

definition getNoaaSunsetDateRaw ::
  "config \<Rightarrow> tzone \<Rightarrow> int \<Rightarrow> real \<Rightarrow> real \<Rightarrow> real \<Rightarrow> int option" where
  "getNoaaSunsetDateRaw cfg tz date latDeg lngDeg zenithDeg =
     (case toDateParts tz date of
        (year, month, day) \<Rightarrow>
          (case noaaSunsetUT cfg tz (newDate tz year month day) latDeg lngDeg zenithDeg of
             None \<Rightarrow> None
           | Some utHours \<Rightarrow>
               (let hours = Math_floor utHours;
                    minutes = Math_round ((utHours - of_int hours) * 60);
                    baseUTC = DateUTC year month day
                in Some (baseUTC + (hours * 60 + minutes) * 60 * 1000))))"

text \<open>
  \<open>CAL_OFFSET_MS\<close> is the program's one mutable global: 0 at first, assigned once when
  the page has loaded. It is an argument here. \<open>!CAL_OFFSET_MS\<close> holds when it is 0.
\<close>

definition getSunsetWithCalibration :: "config \<Rightarrow> tzone \<Rightarrow> int \<Rightarrow> int \<Rightarrow> int option" where
  "getSunsetWithCalibration cfg tz CAL_OFFSET_MS date =
     (case getNoaaSunsetDateRaw cfg tz date (LAT cfg) (LNG cfg) (ZENITH_DEG cfg) of
        None \<Rightarrow> None
      | Some raw \<Rightarrow>
          if \<not> CALIBRATION_ENABLED cfg \<or> CAL_OFFSET_MS = 0 then Some raw
          else Some (raw + CAL_OFFSET_MS))"

subsection \<open>Choosing the dates\<close>

definition getSundayOfWeek :: "tzone \<Rightarrow> int \<Rightarrow> int" where
  "getSundayOfWeek tz date =
     (let d = date;
          day = getDay tz d;
          d = setDate tz d (getDate tz d - day);
          d = setHours tz d 12 0 0 0
      in d)"

definition getComingShabbos :: "tzone \<Rightarrow> int \<Rightarrow> int" where
  "getComingShabbos tz fromDate =
     (let d = fromDate;
          day = getDay tz d;
          diff = (6 - day + 7) mod 7;
          diff = (if diff = 0 \<and> getHours tz d \<ge> 18 then 7 else diff);
          d = setDate tz d (getDate tz d + diff);
          d = setHours tz d 12 0 0 0
      in d)"

subsection \<open>Calibration\<close>

text \<open>
  \<open>new Date(s)\<close> for a string \<open>s\<close> of the form \<open>YYYY-MM-DDTHH:mm:ss\<close> (no zone offset)
  is that local time.
\<close>

definition parseLocalDateTime :: "tzone \<Rightarrow> int \<times> int \<times> int \<Rightarrow> int \<Rightarrow> int \<Rightarrow> int \<Rightarrow> int" where
  "parseLocalDateTime tz ymd hour mn sec =
     (case ymd of
        (year, month, day) \<Rightarrow> UTC tz (MakeDate (MakeDay year (month - 1) day) (MakeTime hour mn sec 0)))"

definition parseLocalTimeOnDate :: "tzone \<Rightarrow> int \<times> int \<times> int \<Rightarrow> int \<times> int \<Rightarrow> int" where
  "parseLocalTimeOnDate tz dateString timeStr =
     (case timeStr of
        (h, m) \<Rightarrow>
          (let d = parseLocalDateTime tz dateString 0 0 0
           in setHours tz d h m 0 0))"

definition computeCalibrationOffsetMs :: "config \<Rightarrow> tzone \<Rightarrow> int" where
  "computeCalibrationOffsetMs cfg tz =
     (if \<not> CALIBRATION_ENABLED cfg then 0
      else
        (let shabbosDate = parseLocalDateTime tz (REFERENCE_SHABBOS cfg) 12 0 0
         in case getNoaaSunsetDateRaw cfg tz shabbosDate (LAT cfg) (LNG cfg) (ZENITH_DEG cfg) of
              None \<Rightarrow> 0
            | Some computedSunset \<Rightarrow>
                (let maarivActual =
                       parseLocalTimeOnDate tz (REFERENCE_SHABBOS cfg) (REFERENCE_MOTZAEI_MAARIV cfg);
                     shkiyahActual = maarivActual - REFERENCE_MAARIV_OFFSET_MIN cfg * 60 * 1000;
                     offsetMs = shkiyahActual - computedSunset
                 in offsetMs)))"

subsection \<open>The schedules\<close>

text \<open>
  The two update functions compute instants, format them and write the strings into the
  page; a thrown \<open>Error\<close> is caught in the same function and the fallback text is written
  instead. The computation up to the instants is \<open>weekdayMinchaTime\<close> and
  \<open>shabbosTimes\<close>, with the thrown error as the left summand; the update functions below
  add the writes. The page is a map from element ids to their text (\<open>getElementById\<close>
  finds no element for an id outside its domain). \<open>toLocaleTimeString\<close> depends on the
  host's locale data and is a parameter, \<open>fmt\<close>. \<open>today\<close> is the value of \<open>new Date()\<close>.
\<close>

datatype error = Error string

type_synonym page = "string \<rightharpoonup> string"

definition setText :: "page \<Rightarrow> string \<Rightarrow> string \<Rightarrow> page" where
  "setText doc ident txt = (case doc ident of None \<Rightarrow> doc | Some old \<Rightarrow> doc(ident \<mapsto> txt))"

definition weekdaySunsets :: "config \<Rightarrow> tzone \<Rightarrow> int \<Rightarrow> int \<Rightarrow> int list" where
  "weekdaySunsets cfg tz CAL_OFFSET_MS sunday =
     foldl (\<lambda>sunsets i.
              (let d = sunday;
                   d = setDate tz d (getDate tz sunday + i)
               in case getSunsetWithCalibration cfg tz CAL_OFFSET_MS d of
                    None \<Rightarrow> sunsets
                  | Some sunset \<Rightarrow> sunsets @ [sunset]))
       [] [0, 1, 2, 3, 4]"

fun earliestLoop :: "int \<Rightarrow> int list \<Rightarrow> int" where
  "earliestLoop earliest [] = earliest"
| "earliestLoop earliest (s # ss) = earliestLoop (if s < earliest then s else earliest) ss"

definition weekdayMinchaTime :: "config \<Rightarrow> tzone \<Rightarrow> int \<Rightarrow> int \<Rightarrow> error + int" where
  "weekdayMinchaTime cfg tz CAL_OFFSET_MS today =
     (let sunday = getSundayOfWeek tz today;
          sunsets = weekdaySunsets cfg tz CAL_OFFSET_MS sunday
      in case sunsets of
           [] \<Rightarrow> Inl (Error ''No sunsets computed'')
         | s0 # rest \<Rightarrow>
             (let earliest = earliestLoop s0 sunsets;
                  minchaTime = earliest - 15 * 60 * 1000
              in Inr minchaTime))"

definition updateWeekdayMinchaMaariv ::
  "config \<Rightarrow> tzone \<Rightarrow> (int \<Rightarrow> string) \<Rightarrow> int \<Rightarrow> int \<Rightarrow> page \<Rightarrow> page" where
  "updateWeekdayMinchaMaariv cfg tz fmt CAL_OFFSET_MS today doc =
     (case weekdayMinchaTime cfg tz CAL_OFFSET_MS today of
        Inr minchaTime \<Rightarrow>
          (let timeStr = fmt minchaTime
           in setText (setText (setText doc ''weekdayMinchaMaariv'' timeStr)
                ''weekdayMinchaMaarivCard'' timeStr) ''heroWeekdayMincha'' timeStr)
      | Inl e \<Rightarrow>
          (let fallback = ''Check shul board''
           in foldl (\<lambda>dc ident. setText dc ident fallback) doc
                [''weekdayMinchaMaariv'', ''weekdayMinchaMaarivCard'', ''heroWeekdayMincha'']))"

definition shabbosTimes :: "config \<Rightarrow> tzone \<Rightarrow> int \<Rightarrow> int \<Rightarrow> error + (int \<times> int \<times> int)" where
  "shabbosTimes cfg tz CAL_OFFSET_MS today =
     (let shabbos = getComingShabbos tz today
      in case getSunsetWithCalibration cfg tz CAL_OFFSET_MS shabbos of
           None \<Rightarrow> Inl (Error ''No Shabbos sunset'')
         | Some sunset \<Rightarrow>
             (let erevMincha = sunset - 15 * 60 * 1000;
                  shabbosMincha = sunset - 45 * 60 * 1000;
                  maariv = sunset + 50 * 60 * 1000
              in Inr (erevMincha, shabbosMincha, maariv)))"

definition updateShabbosTimes ::
  "config \<Rightarrow> tzone \<Rightarrow> (int \<Rightarrow> string) \<Rightarrow> int \<Rightarrow> int \<Rightarrow> page \<Rightarrow> page" where
  "updateShabbosTimes cfg tz fmt CAL_OFFSET_MS today doc =
     (case shabbosTimes cfg tz CAL_OFFSET_MS today of
        Inr (erevMincha, shabbosMincha, maariv) \<Rightarrow>
          (let erevMinchaStr = fmt erevMincha;
               shabbosMinchaStr = fmt shabbosMincha;
               maarivStr = fmt maariv
           in setText (setText (setText (setText (setText doc
                ''erevShabbosMinchaTime'' erevMinchaStr)
                ''shabbosMinchaTime'' shabbosMinchaStr)
                ''shabbosMaarivTime'' maarivStr)
                ''heroShabbosMincha'' shabbosMinchaStr)
                ''heroShabbosMaariv'' maarivStr)
      | Inl e \<Rightarrow>
          (let fallback = ''See local listing''
           in foldl (\<lambda>dc ident. setText dc ident fallback) doc
                [''erevShabbosMinchaTime'', ''shabbosMinchaTime'', ''shabbosMaarivTime'',
                 ''heroShabbosMincha'', ''heroShabbosMaariv'']))"

subsection \<open>Quantities the claims speak about\<close>

text \<open>
  The value that \<open>cosH\<close> takes in the call of \<open>noaaSunsetUT\<close> that
  \<open>getNoaaSunsetDateRaw\<close> makes: the date passed on is local midnight of the input's
  local calendar day.
\<close>

definition hourAngleCosine :: "config \<Rightarrow> tzone \<Rightarrow> int \<Rightarrow> real \<Rightarrow> real \<Rightarrow> real" where
  "hourAngleCosine cfg tz date lngDeg zenithDeg =
     (case toDateParts tz date of
        (year, month, day) \<Rightarrow>
          cosH cfg
            (trueLongitude (meanAnomaly
               (approxTime (dayOfYear tz (newDate tz year month day)) (lngDeg / 15.0))))
            zenithDeg)"

text \<open>
  The formula of step 8 of the specification, with the latitude of the location that is
  passed in.
\<close>

definition cosH_spec :: "real \<Rightarrow> real \<Rightarrow> real \<Rightarrow> real" where
  "cosH_spec latitude L depressionAngle =
     (cos_deg depressionAngle - sinDec L * sin_deg latitude) / (cosDec L * cos_deg latitude)"

text \<open>
  The hour-angle cosine that the specification prescribes for a call of the engine with
  latitude \<open>latDeg\<close>: the formula \<open>cosH_spec\<close> at the same true longitude that
  \<open>getNoaaSunsetDateRaw\<close> computes.
\<close>

definition hourAngleCosine_spec :: "tzone \<Rightarrow> int \<Rightarrow> real \<Rightarrow> real \<Rightarrow> real \<Rightarrow> real" where
  "hourAngleCosine_spec tz date latDeg lngDeg zenithDeg =
     (case toDateParts tz date of
        (year, month, day) \<Rightarrow>
          cosH_spec latDeg
            (trueLongitude (meanAnomaly
               (approxTime (dayOfYear tz (newDate tz year month day)) (lngDeg / 15.0))))
            zenithDeg)"

text \<open>
  An input at which the rounded minutes reach 60. With the longitude \<open>rolloverLng\<close>
  and the day number 185 the mean anomaly is exactly 180 degrees and the true longitude
  is 102.634 degrees; \<open>rolloverH\<close> is the hour angle, in hours, for which the
  normalized UT is a quarter of a minute before 24, and \<open>rolloverZenith\<close> is the
  zenith angle that gives this hour angle at the latitude \<open>LAT\<close>.
\<close>

definition rolloverLng :: real where
  "rolloverLng = - 48105 / 616"

definition rolloverH :: real where
  "rolloverH = - 1 / 240 - rightAscension 102.634 + 0.06571 * (916445 / 4928) + 6.622 + (- 3207 / 616)"

definition rolloverZenith :: real where
  "rolloverZenith =
     arccos (cos_deg (15 * rolloverH) * (cosDec 102.634 * cos_deg (LAT bmh))
             + sinDec 102.634 * sin_deg (LAT bmh)) * 180 / pi"

text \<open>
  The quantities of the calibration: the engine's sunset for the reference date (the
  date is parsed with 12:00:00 local time), and the sunset that the observed Maariv
  implies.
\<close>

definition theoreticalSunset :: "config \<Rightarrow> tzone \<Rightarrow> int option" where
  "theoreticalSunset cfg tz =
     getNoaaSunsetDateRaw cfg tz (parseLocalDateTime tz (REFERENCE_SHABBOS cfg) 12 0 0)
       (LAT cfg) (LNG cfg) (ZENITH_DEG cfg)"

definition impliedSunset :: "config \<Rightarrow> tzone \<Rightarrow> int" where
  "impliedSunset cfg tz =
     parseLocalTimeOnDate tz (REFERENCE_SHABBOS cfg) (REFERENCE_MOTZAEI_MAARIV cfg)
       - REFERENCE_MAARIV_OFFSET_MIN cfg * 60 * 1000"

text \<open>
  A configuration under which no sunset is computable on any date: latitude 60 degrees
  and zenith 0 degrees (the sun is never overhead there).
\<close>

definition noSunsetConfig :: config where
  "noSunsetConfig = bmh \<lparr> LAT := 60, ZENITH_DEG := 0 \<rparr>"

text \<open>The local calendar day of a time value, as a day number.\<close>

definition localDay :: "tzone \<Rightarrow> int \<Rightarrow> int" where
  "localDay tz d = Day (LocalTime tz d)"

text \<open>
  Two conditions on the host's zone. A zone is day-stable when a local time value,
  converted to UTC and back, shows the same calendar day (in a zone with daylight time
  the hour can move at a transition, the day does not). A zone has the constant offset
  \<open>off\<close> on a stretch of time values when both directions of the conversion use
  \<open>off\<close> there.
\<close>

definition tzDayStable :: "tzone \<Rightarrow> bool" where
  "tzDayStable tz = (\<forall>t. Day (LocalTime tz (UTC tz t)) = Day t)"

definition constantOffsetOn :: "tzone \<Rightarrow> int \<Rightarrow> int \<Rightarrow> int \<Rightarrow> bool" where
  "constantOffsetOn tz off lo hi = (\<forall>t b. lo \<le> t \<and> t \<le> hi \<longrightarrow> tz t b = off)"

text \<open>The dates that the weekday schedule evaluates, and the sunsets it keeps.\<close>

definition weekdayDates :: "tzone \<Rightarrow> int \<Rightarrow> int list" where
  "weekdayDates tz today =
     map (\<lambda>i. setDate tz (getSundayOfWeek tz today) (getDate tz (getSundayOfWeek tz today) + i))
       [0, 1, 2, 3, 4]"

definition computedSunsets :: "config \<Rightarrow> tzone \<Rightarrow> int \<Rightarrow> int list \<Rightarrow> int list" where
  "computedSunsets cfg tz CAL_OFFSET_MS dates =
     List.map_filter (getSunsetWithCalibration cfg tz CAL_OFFSET_MS) dates"

text \<open>
  The ordinal day of the year of a calendar date (month 0 = January): 1 for 1 January,
  365 or 366 for 31 December.
\<close>

definition ordinalDayOfYear :: "int \<Rightarrow> int \<Rightarrow> int \<Rightarrow> int" where
  "ordinalDayOfYear year month day = monthStart month (leapDays year) + day"

section \<open>Calendar lemmas\<close>

lemma div_bounds:
  fixes a n :: int
  assumes "0 < n"
  shows "n * (a div n) \<le> a" and "a - (n - 1) \<le> n * (a div n)"
proof -
  have e: "a = n * (a div n) + a mod n" by simp
  have m: "0 \<le> a mod n" "a mod n < n" using assms by simp_all
  show "n * (a div n) \<le> a" using e m by linarith
  show "a - (n - 1) \<le> n * (a div n)" using e m by linarith
qed

lemma DayFromYear_bounds:
  "146097 * (y - 1970) - 607 \<le> 400 * DayFromYear y"
  "400 * DayFromYear y \<le> 146097 * (y - 1970) + 593"
proof -
  define q1 where "q1 = (y - 1969) div 4"
  define q2 where "q2 = (y - 1901) div 100"
  define q3 where "q3 = (y - 1601) div 400"
  have a: "4 * q1 \<le> y - 1969" "y - 1969 - 3 \<le> 4 * q1"
    unfolding q1_def using div_bounds [of 4 "y - 1969"] by simp_all
  have b: "100 * q2 \<le> y - 1901" "y - 1901 - 99 \<le> 100 * q2"
    unfolding q2_def using div_bounds [of 100 "y - 1901"] by simp_all
  have c: "400 * q3 \<le> y - 1601" "y - 1601 - 399 \<le> 400 * q3"
    unfolding q3_def using div_bounds [of 400 "y - 1601"] by simp_all
  have d: "DayFromYear y = 365 * (y - 1970) + q1 - q2 + q3"
    by (simp add: DayFromYear_def q1_def q2_def q3_def)
  show "146097 * (y - 1970) - 607 \<le> 400 * DayFromYear y"
    unfolding d using a(2) b(1) c(2) by (simp add: algebra_simps)
  show "400 * DayFromYear y \<le> 146097 * (y - 1970) + 593"
    unfolding d using a(1) b(2) c(1) by (simp add: algebra_simps)
qed

lemma div_succ:
  fixes a n :: int
  assumes "0 < n"
  shows "(a + 1) div n = a div n + (if (a + 1) mod n = 0 then 1 else 0)"
proof -
  define q where "q = a div n"
  define r where "r = a mod n"
  have e: "a = n * q + r" by (simp add: q_def r_def)
  have r: "0 \<le> r" "r < n" using assms by (simp_all add: r_def)
  show ?thesis
  proof (cases "r + 1 = n")
    case True
    then have "a + 1 = n * (q + 1) + 0" using e by (simp add: algebra_simps)
    then have "(a + 1) div n = q + 1" "(a + 1) mod n = 0"
      using assms int_div_pos_eq [of "a + 1" n "q + 1" 0] int_mod_pos_eq [of "a + 1" n "q + 1" 0]
      by simp_all
    then show ?thesis by (simp add: q_def)
  next
    case False
    then have lt: "r + 1 < n" using r by simp
    have "a + 1 = n * q + (r + 1)" using e by simp
    then have "(a + 1) div n = q" "(a + 1) mod n = r + 1"
      using lt r int_div_pos_eq [of "a + 1" n q "r + 1"] int_mod_pos_eq [of "a + 1" n q "r + 1"]
      by simp_all
    then show ?thesis using r by (simp add: q_def)
  qed
qed

lemma mod_shift: "((y::int) - n * k) mod n = y mod n"
proof -
  have "y - n * k = y + (- k) * n" by simp
  then show ?thesis by (simp only: mod_mult_self1)
qed

lemma m4: "((y::int) - 1968) mod 4 = y mod 4"
  using mod_shift [of y 4 492] by simp

lemma m100: "((y::int) - 1900) mod 100 = y mod 100"
  using mod_shift [of y 100 19] by simp

lemma m400: "((y::int) - 1600) mod 400 = y mod 400"
  using mod_shift [of y 400 4] by simp

lemma d400_100: "(y::int) mod 400 = 0 \<Longrightarrow> y mod 100 = 0"
  using mod_mod_cancel [of 100 400 y] by simp

lemma d100_4: "(y::int) mod 100 = 0 \<Longrightarrow> y mod 4 = 0"
  using mod_mod_cancel [of 4 100 y] by simp

lemma DayFromYear_step: "DayFromYear (y + 1) = DayFromYear y + DaysInYear y"
proof -
  have a: "(y - 1968) div 4 = (y - 1969) div 4 + (if y mod 4 = 0 then 1 else 0)"
    using div_succ [of 4 "y - 1969"] m4 [of y] by simp
  have b: "(y - 1900) div 100 = (y - 1901) div 100 + (if y mod 100 = 0 then 1 else 0)"
    using div_succ [of 100 "y - 1901"] m100 [of y] by simp
  have c: "(y - 1600) div 400 = (y - 1601) div 400 + (if y mod 400 = 0 then 1 else 0)"
    using div_succ [of 400 "y - 1601"] m400 [of y] by simp
  have d: "DayFromYear (y + 1) = 365 * (y - 1969) + (y - 1968) div 4 - (y - 1900) div 100
      + (y - 1600) div 400"
    by (simp add: DayFromYear_def)
  show ?thesis
    unfolding d a b c using d400_100 [of y] d100_4 [of y]
    by (simp add: DayFromYear_def DaysInYear_def)
qed

lemma DaysInYear_range: "365 \<le> DaysInYear y" "DaysInYear y \<le> 366"
  by (simp_all add: DaysInYear_def)

lemma DayFromYear_less: "DayFromYear y < DayFromYear (y + 1)"
  using DayFromYear_step [of y] DaysInYear_range [of y] by linarith

lemma DayFromYear_mono_nat: "DayFromYear y \<le> DayFromYear (y + int n)"
proof (induction n)
  case 0
  show ?case by simp
next
  case (Suc n)
  have "y + int (Suc n) = (y + int n) + 1" by simp
  then have "DayFromYear (y + int n) < DayFromYear (y + int (Suc n))"
    using DayFromYear_less [of "y + int n"] by (simp only:)
  then show ?case using Suc by linarith
qed

lemma DayFromYear_mono: "y \<le> z \<Longrightarrow> DayFromYear y \<le> DayFromYear z"
  using DayFromYear_mono_nat [of y "nat (z - y)"] by simp

lemma DayFromYear_strict: "y < z \<Longrightarrow> DayFromYear y < DayFromYear z"
  using DayFromYear_mono [of "y + 1" z] DayFromYear_less [of y] by simp

lemma YearFromDay_bounds:
  "DayFromYear (YearFromDay d) \<le> d" "d < DayFromYear (YearFromDay d + 1)"
proof -
  define y where "y = 1970 + (400 * d) div 146097"
  have k: "146097 * (y - 1970) \<le> 400 * d" "400 * d - 146096 \<le> 146097 * (y - 1970)"
    unfolding y_def using div_bounds [of 146097 "400 * d"] by simp_all
  have lo: "DayFromYear (y - 1) \<le> d"
    using DayFromYear_bounds(2) [of "y - 1"] k(1) by (simp add: algebra_simps)
  have hi: "d < DayFromYear (y + 2)"
    using DayFromYear_bounds(1) [of "y + 2"] k(2) by (simp add: algebra_simps)
  have e: "YearFromDay d = (if d < DayFromYear y then y - 1
         else if DayFromYear (y + 1) \<le> d then y + 1 else y)"
    by (simp add: YearFromDay_def y_def Let_def)
  show "DayFromYear (YearFromDay d) \<le> d"
    unfolding e using lo by simp
  have "y + 1 + 1 = y + 2" "y - 1 + 1 = y" by simp_all
  then show "d < DayFromYear (YearFromDay d + 1)"
    unfolding e using hi by (simp only: if_distrib [of "\<lambda>z. z + 1"] if_distrib [of DayFromYear] split: if_split) simp
qed

lemma YearFromDay_unique:
  assumes "DayFromYear y \<le> d" and "d < DayFromYear (y + 1)"
  shows "YearFromDay d = y"
proof (rule ccontr)
  assume ne: "YearFromDay d \<noteq> y"
  show False
  proof (cases "YearFromDay d < y")
    case True
    then have "DayFromYear (YearFromDay d + 1) \<le> DayFromYear y"
      by (intro DayFromYear_mono) simp
    then show False using YearFromDay_bounds(2) [of d] assms(1) by linarith
  next
    case False
    then have "y + 1 \<le> YearFromDay d" using ne by simp
    then have "DayFromYear (y + 1) \<le> DayFromYear (YearFromDay d)"
      by (rule DayFromYear_mono)
    then show False using YearFromDay_bounds(1) [of d] assms(2) by linarith
  qed
qed

lemma Day_bounds: "msPerDay * Day t \<le> t" "t < msPerDay * Day t + msPerDay"
proof -
  have p: "0 < msPerDay" by (simp add: msPerDay_def)
  show "msPerDay * Day t \<le> t" unfolding Day_def by (rule div_bounds(1) [OF p])
  show "t < msPerDay * Day t + msPerDay"
    unfolding Day_def using div_bounds(2) [OF p, of t] by linarith
qed

lemma Day_eqI:
  assumes "msPerDay * k \<le> t" "t < msPerDay * k + msPerDay"
  shows "Day t = k"
proof -
  have "t = msPerDay * k + (t - msPerDay * k)" by simp
  then show ?thesis
    unfolding Day_def
    using int_div_pos_eq [of t msPerDay k "t - msPerDay * k"] assms by simp
qed

lemma YearFromTime_bounds:
  "TimeFromYear (YearFromTime t) \<le> t" "t < TimeFromYear (YearFromTime t + 1)"
proof -
  define y where "y = YearFromTime t"
  have a: "DayFromYear y \<le> Day t" "Day t + 1 \<le> DayFromYear (y + 1)"
    using YearFromDay_bounds [of "Day t"] by (simp_all add: y_def YearFromTime_def)
  have "msPerDay * DayFromYear y \<le> msPerDay * Day t"
    using a(1) by (simp add: msPerDay_def)
  then show "TimeFromYear (YearFromTime t) \<le> t"
    unfolding y_def [symmetric] TimeFromYear_def using Day_bounds(1) [of t] by linarith
  have "msPerDay * (Day t + 1) \<le> msPerDay * DayFromYear (y + 1)"
    using a(2) by (simp only: msPerDay_def mult_le_cancel_left_pos) 
  then show "t < TimeFromYear (YearFromTime t + 1)"
    unfolding y_def [symmetric] TimeFromYear_def using Day_bounds(2) [of t]
    by (simp add: algebra_simps)
qed

lemma YearFromTime_unique:
  assumes "TimeFromYear y \<le> t" "t < TimeFromYear (y + 1)"
  shows "YearFromTime t = y"
proof -
  have "msPerDay * DayFromYear y < msPerDay * Day t + msPerDay"
    using assms(1) Day_bounds(2) [of t] by (simp add: TimeFromYear_def)
  then have "msPerDay * DayFromYear y < msPerDay * (Day t + 1)" by (simp add: algebra_simps)
  then have "DayFromYear y < Day t + 1" by (simp only: msPerDay_def mult_less_cancel_left_pos)
  then have lo: "DayFromYear y \<le> Day t" by simp
  have "msPerDay * Day t < msPerDay * DayFromYear (y + 1)"
    using assms(2) Day_bounds(1) [of t] by (simp add: TimeFromYear_def)
  then have hi: "Day t < DayFromYear (y + 1)" by (simp only: msPerDay_def mult_less_cancel_left_pos)
  show ?thesis unfolding YearFromTime_def by (rule YearFromDay_unique [OF lo hi])
qed

lemma TimeFromYear_step:
  "TimeFromYear y + 365 * msPerDay \<le> TimeFromYear (y + 1)"
  unfolding TimeFromYear_def DayFromYear_step using DaysInYear_range(1) [of y]
  by (simp add: msPerDay_def algebra_simps)

lemma Day_MakeDate:
  assumes "0 \<le> tm" "tm < msPerDay"
  shows "Day (MakeDate d tm) = d" "TimeWithinDay (MakeDate d tm) = tm"
proof -
  have p: "0 < msPerDay" by (simp add: msPerDay_def)
  have e: "MakeDate d tm = msPerDay * d + tm" by (simp add: MakeDate_def)
  show "Day (MakeDate d tm) = d"
    unfolding Day_def e using int_div_pos_eq [of "msPerDay * d + tm" msPerDay d tm] assms by simp
  show "TimeWithinDay (MakeDate d tm) = tm"
    unfolding TimeWithinDay_def e using int_mod_pos_eq [of "msPerDay * d + tm" msPerDay d tm] assms by simp
qed

lemma TimeWithinDay_range: "0 \<le> TimeWithinDay t" "TimeWithinDay t < msPerDay"
  by (simp_all add: TimeWithinDay_def msPerDay_def)

lemma MakeDate_Day: "MakeDate (Day t) (TimeWithinDay t) = t"
  by (simp add: MakeDate_def Day_def TimeWithinDay_def)

lemma monthOfDay_range: "0 \<le> monthOfDay dwy leap" "monthOfDay dwy leap \<le> 11"
  by (simp_all add: monthOfDay_def)

lemma leapDays_range: "0 \<le> leapDays y" "leapDays y \<le> 1"
  by (simp_all add: leapDays_def)

lemma MakeDay_fields:
  "MakeDay (YearFromTime t) (MonthFromTime t) (DateFromTime t + k) = Day t + k"
proof -
  define m where "m = MonthFromTime t"
  have r: "0 \<le> m" "m \<le> 11" using monthOfDay_range by (simp_all add: m_def MonthFromTime_def)
  then have dm: "m div 12 = 0" "m mod 12 = m" by simp_all
  have "MakeDay (YearFromTime t) m (DateFromTime t + k)
      = DayFromYear (YearFromTime t) + monthStart m (leapDays (YearFromTime t)) + (DateFromTime t + k) - 1"
    by (simp add: MakeDay_def Let_def dm)
  also have "\<dots> = Day t + k"
    by (simp add: DateFromTime_def DayWithinYear_def InLeapYear_def m_def)
  finally show ?thesis by (simp add: m_def)
qed

lemma fullYear_id:
  assumes "y < 0 \<or> 99 < y"
  shows "fullYear y = y"
  using assms by (auto simp add: fullYear_def)

section \<open>Local calendar days under the host zone\<close>

lemma toDateParts_localDay:
  "toDateParts tz d =
     (YearFromDay (localDay tz d),
      monthOfDay (localDay tz d - DayFromYear (YearFromDay (localDay tz d)))
        (leapDays (YearFromDay (localDay tz d))),
      localDay tz d - DayFromYear (YearFromDay (localDay tz d))
        - monthStart (monthOfDay (localDay tz d - DayFromYear (YearFromDay (localDay tz d)))
            (leapDays (YearFromDay (localDay tz d)))) (leapDays (YearFromDay (localDay tz d))) + 1)"
  by (simp add: toDateParts_def getFullYear_def getMonth_def getDate_def localDay_def Let_def
      YearFromTime_def MonthFromTime_def DateFromTime_def DayWithinYear_def InLeapYear_def)

lemma toDateParts_cong:
  assumes "localDay tz a = localDay tz b"
  shows "toDateParts tz a = toDateParts tz b"
  unfolding toDateParts_localDay assms ..

lemma getDay_localDay: "getDay tz d = (localDay tz d + 4) mod 7"
  by (simp add: getDay_def WeekDay_def localDay_def)

lemma getDay_range: "0 \<le> getDay tz d" "getDay tz d \<le> 6"
  by (simp_all add: getDay_localDay)

lemma setDate_localDay:
  assumes "tzDayStable tz"
  shows "localDay tz (setDate tz d (getDate tz d + k)) = localDay tz d + k"
proof -
  define t where "t = LocalTime tz d"
  have "localDay tz (setDate tz d (getDate tz d + k))
      = Day (MakeDate (MakeDay (YearFromTime t) (MonthFromTime t) (DateFromTime t + k)) (TimeWithinDay t))"
    using assms by (simp add: localDay_def setDate_def getDate_def Let_def t_def tzDayStable_def)
  also have "\<dots> = Day t + k"
    unfolding MakeDay_fields using Day_MakeDate(1) [OF TimeWithinDay_range] .
  finally show ?thesis by (simp add: t_def localDay_def)
qed

lemma setDate_localDay_minus:
  assumes "tzDayStable tz"
  shows "localDay tz (setDate tz d (getDate tz d - k)) = localDay tz d - k"
  using setDate_localDay [OF assms, of d "- k"] by simp

lemma setDate_localDay_same:
  assumes "tzDayStable tz"
  shows "localDay tz (setDate tz d (getDate tz d)) = localDay tz d"
  using setDate_localDay [OF assms, of d 0] by simp

lemma setHours_localDay:
  assumes "tzDayStable tz" "0 \<le> MakeTime h m s ms" "MakeTime h m s ms < msPerDay"
  shows "localDay tz (setHours tz d h m s ms) = localDay tz d"
proof -
  have "localDay tz (setHours tz d h m s ms) = Day (MakeDate (Day (LocalTime tz d)) (MakeTime h m s ms))"
    using assms(1) by (simp add: localDay_def setHours_def Let_def tzDayStable_def)
  also have "\<dots> = Day (LocalTime tz d)" by (rule Day_MakeDate(1) [OF assms(2,3)])
  finally show ?thesis by (simp add: localDay_def)
qed

lemma noon_range: "0 \<le> MakeTime 12 0 0 0" "MakeTime 12 0 0 0 < msPerDay"
  by (simp_all add: MakeTime_def msPerHour_def msPerDay_def)

lemma getSundayOfWeek_localDay:
  assumes "tzDayStable tz"
  shows "localDay tz (getSundayOfWeek tz d) = localDay tz d - getDay tz d"
proof -
  have "localDay tz (getSundayOfWeek tz d) = localDay tz (setDate tz d (getDate tz d - getDay tz d))"
    by (simp add: getSundayOfWeek_def Let_def setHours_localDay [OF assms noon_range])
  then show ?thesis by (simp only: setDate_localDay_minus [OF assms])
qed

lemma week_start_mod: "((x::int) - (x + 4) mod 7 + 4 + i) mod 7 = i mod 7"
proof -
  have "x + 4 = 7 * ((x + 4) div 7) + (x + 4) mod 7" by simp
  then have "x - (x + 4) mod 7 + 4 + i = i + 7 * ((x + 4) div 7)" by linarith
  then show ?thesis by (simp only: mod_mult_self2)
qed

lemma getSundayOfWeek_getDay:
  assumes "tzDayStable tz"
  shows "getDay tz (getSundayOfWeek tz d) = 0"
  unfolding getDay_localDay [of tz "getSundayOfWeek tz d"] getSundayOfWeek_localDay [OF assms]
  unfolding getDay_localDay using week_start_mod [of "localDay tz d" 0] by simp

lemma getComingShabbos_localDay:
  assumes "tzDayStable tz"
  shows "localDay tz (getComingShabbos tz d)
       = localDay tz d + (if getDay tz d = 6 \<and> 18 \<le> getHours tz d then 7 else 6 - getDay tz d)"
proof -
  define wd where "wd = getDay tz d"
  have r: "0 \<le> wd" "wd \<le> 6" using getDay_range [of tz d] by (simp_all add: wd_def)
  have "(6 - wd + 7) mod 7 = (6 - wd) mod 7" by (simp only: mod_add_self2)
  also have "\<dots> = 6 - wd" using r by simp
  finally have "(6 - wd + 7) mod 7 = 6 - wd" .
  then have m: "(13 - wd) mod 7 = 6 - wd" by simp
  have z: "(6 - wd = 0) = (wd = 6)" by auto
  have "localDay tz (getComingShabbos tz d)
      = localDay tz (setDate tz d (getDate tz d + (if wd = 6 \<and> 18 \<le> getHours tz d then 7 else 6 - wd)))"
    by (simp add: getComingShabbos_def Let_def setHours_localDay [OF assms noon_range]
        wd_def [symmetric] m z)
  then show ?thesis by (simp only: setDate_localDay [OF assms] wd_def)
qed

lemma weekdayDates_localDay:
  assumes "tzDayStable tz"
  shows "map (localDay tz) (weekdayDates tz today)
       = map (\<lambda>i. localDay tz today - getDay tz today + i) [0, 1, 2, 3, 4]"
  by (simp add: weekdayDates_def setDate_localDay [OF assms] setDate_localDay_same [OF assms]
      getSundayOfWeek_localDay [OF assms])

lemma weekdayDates_getDay:
  assumes "tzDayStable tz"
  shows "map (getDay tz) (weekdayDates tz today) = [0, 1, 2, 3, 4]"
proof -
  have "map (getDay tz) (weekdayDates tz today)
      = map (\<lambda>d. (d + 4) mod 7) (map (localDay tz) (weekdayDates tz today))"
    by (simp add: getDay_localDay comp_def)
  also have "\<dots> = map (\<lambda>i. (localDay tz today - (localDay tz today + 4) mod 7 + 4 + i) mod 7) [0, 1, 2, 3, 4]"
    unfolding weekdayDates_localDay [OF assms] getDay_localDay by (simp add: algebra_simps)
  also have "\<dots> = [0, 1, 2, 3, 4]" unfolding week_start_mod by simp
  finally show ?thesis .
qed

lemma weekdayDates_nonempty: "weekdayDates tz today \<noteq> []"
  by (simp add: weekdayDates_def)

lemma fixedZone_stable: "tzDayStable (fixedZone off)"
  by (simp add: tzDayStable_def LocalTime_def UTC_def fixedZone_def)

section \<open>The zone of New York\<close>

lemma firstSunday_range:
  "day \<le> firstSundayOnOrAfter day" "firstSundayOnOrAfter day \<le> day + 6"
  by (simp_all add: firstSundayOnOrAfter_def)

lemma dstStart_form:
  "\<exists>k. dstStartLocal y = msPerDay * k + 2 * msPerHour
     \<and> DayFromYear y + 66 \<le> k \<and> k \<le> DayFromYear y + 73"
proof -
  define k where "k = firstSundayOnOrAfter (MakeDay y 2 8)"
  have m: "MakeDay y 2 8 = DayFromYear y + 66 + leapDays y"
    by (simp add: MakeDay_def monthStart_def Let_def)
  have "dstStartLocal y = msPerDay * k + 2 * msPerHour"
    by (simp add: dstStartLocal_def k_def MakeDate_def MakeTime_def)
  moreover have "MakeDay y 2 8 \<le> k" "k \<le> MakeDay y 2 8 + 6"
    using firstSunday_range [of "MakeDay y 2 8"] by (simp_all add: k_def)
  then have "DayFromYear y + 66 \<le> k" "k \<le> DayFromYear y + 73"
    using leapDays_range [of y] unfolding m by linarith+
  ultimately show ?thesis by blast
qed

lemma dstEnd_form:
  "\<exists>k. dstEndLocal y = msPerDay * k + 2 * msPerHour
     \<and> DayFromYear y + 304 \<le> k \<and> k \<le> DayFromYear y + 311"
proof -
  define k where "k = firstSundayOnOrAfter (MakeDay y 10 1)"
  have m: "MakeDay y 10 1 = DayFromYear y + 304 + leapDays y"
    by (simp add: MakeDay_def monthStart_def Let_def)
  have "dstEndLocal y = msPerDay * k + 2 * msPerHour"
    by (simp add: dstEndLocal_def k_def MakeDate_def MakeTime_def)
  moreover have "MakeDay y 10 1 \<le> k" "k \<le> MakeDay y 10 1 + 6"
    using firstSunday_range [of "MakeDay y 10 1"] by (simp_all add: k_def)
  then have "DayFromYear y + 304 \<le> k" "k \<le> DayFromYear y + 311"
    using leapDays_range [of y] unfolding m by linarith+
  ultimately show ?thesis by blast
qed

lemma newYork_local:
  "newYork t False =
     (if dstStartLocal (YearFromTime t) + msPerHour \<le> t \<and> t < dstEndLocal (YearFromTime t)
      then - 4 * msPerHour else - 5 * msPerHour)"
  by (simp add: newYork_def Let_def)

lemma newYork_utc:
  "newYork t True =
     (if dstStartLocal (YearFromTime t) + 5 * msPerHour \<le> t
         \<and> t < dstEndLocal (YearFromTime t) + 4 * msPerHour
      then - 4 * msPerHour else - 5 * msPerHour)"
  by (simp add: newYork_def Let_def)

lemma newYork_stable: "tzDayStable newYork"
  unfolding tzDayStable_def
proof
  fix tl :: int
  define y where "y = YearFromTime tl"
  define b where "b = TimeFromYear y"
  define b' where "b' = TimeFromYear (y + 1)"
  define S where "S = dstStartLocal y"
  define E where "E = dstEndLocal y"
  have yb: "b \<le> tl" "tl < b'" using YearFromTime_bounds [of tl] by (simp_all add: b_def b'_def y_def)
  have step: "b + 365 * msPerDay \<le> b'" unfolding b_def b'_def by (rule TimeFromYear_step)
  obtain ks where ks: "S = msPerDay * ks + 2 * msPerHour" "DayFromYear y + 66 \<le> ks" "ks \<le> DayFromYear y + 73"
    using dstStart_form [of y] unfolding S_def by blast
  obtain ke where ke: "E = msPerDay * ke + 2 * msPerHour" "DayFromYear y + 304 \<le> ke" "ke \<le> DayFromYear y + 311"
    using dstEnd_form [of y] unfolding E_def by blast
  have Sb: "b + 66 * msPerDay + 2 * msPerHour \<le> S" "S \<le> b + 73 * msPerDay + 2 * msPerHour"
    using ks by (simp_all add: b_def TimeFromYear_def msPerDay_def msPerHour_def)
  have Eb: "b + 304 * msPerDay + 2 * msPerHour \<le> E" "E \<le> b + 311 * msPerDay + 2 * msPerHour"
    using ke by (simp_all add: b_def TimeFromYear_def msPerDay_def msPerHour_def)
  have offL: "newYork tl False = (if S + msPerHour \<le> tl \<and> tl < E then - 4 * msPerHour else - 5 * msPerHour)"
    by (simp add: newYork_local y_def S_def E_def)
  have sameYear: "YearFromTime u = y" if "b \<le> u" "u < b'" for u
    using that by (intro YearFromTime_unique) (simp_all add: b_def b'_def)
  have offU: "newYork u True = (if S + 5 * msPerHour \<le> u \<and> u < E + 4 * msPerHour then - 4 * msPerHour else - 5 * msPerHour)"
    if "b \<le> u" "u < b'" for u
    by (simp add: newYork_utc sameYear [OF that] S_def E_def)
  consider (dst) "S + msPerHour \<le> tl" "tl < E" | (early) "tl < S + msPerHour" | (late) "E \<le> tl"
    by linarith
  then show "Day (LocalTime newYork (UTC newYork tl)) = Day tl"
  proof cases
    case dst
    define u where "u = tl + 4 * msPerHour"
    have u: "UTC newYork tl = u" using dst by (simp add: UTC_def offL u_def)
    have ur: "b \<le> u" "u < b'"
      using yb dst Eb step by (simp_all add: u_def msPerHour_def msPerDay_def)
    have "newYork u True = - 4 * msPerHour"
      unfolding offU [OF ur] using dst by (simp add: u_def msPerHour_def)
    then have "LocalTime newYork u = tl" by (simp add: LocalTime_def u_def)
    then show ?thesis by (simp add: u)
  next
    case early
    define u where "u = tl + 5 * msPerHour"
    have u: "UTC newYork tl = u" using early by (simp add: UTC_def offL u_def)
    have ur: "b \<le> u" "u < b'"
      using yb early Sb step by (simp_all add: u_def msPerHour_def msPerDay_def)
    have lt: "u < E + 4 * msPerHour"
      using early Sb Eb by (simp add: u_def msPerHour_def msPerDay_def)
    show ?thesis
    proof (cases "S \<le> tl")
      case True
      have "newYork u True = - 4 * msPerHour"
        unfolding offU [OF ur] using True lt by (simp add: u_def msPerHour_def)
      then have l: "LocalTime newYork u = tl + msPerHour"
        by (simp add: LocalTime_def u_def msPerHour_def)
      have "Day tl = ks" using True early ks(1)
        by (intro Day_eqI) (simp_all add: msPerHour_def msPerDay_def)
      moreover have "Day (tl + msPerHour) = ks" using True early ks(1)
        by (intro Day_eqI) (simp_all add: msPerHour_def msPerDay_def)
      ultimately show ?thesis by (simp add: u l)
    next
      case False
      have "newYork u True = - 5 * msPerHour"
        unfolding offU [OF ur] using False by (simp add: u_def msPerHour_def)
      then have "LocalTime newYork u = tl" by (simp add: LocalTime_def u_def)
      then show ?thesis by (simp add: u)
    qed
  next
    case late
    define u where "u = tl + 5 * msPerHour"
    have u: "UTC newYork tl = u" using late by (simp add: UTC_def offL u_def)
    have "newYork u True = - 5 * msPerHour"
    proof (cases "u < b'")
      case True
      have ur: "b \<le> u" "u < b'" using yb True by (simp_all add: u_def msPerHour_def)
      show ?thesis unfolding offU [OF ur] using late by (simp add: u_def msPerHour_def)
    next
      case False
      have b2: "b' + 365 * msPerDay \<le> TimeFromYear (y + 1 + 1)"
        unfolding b'_def by (rule TimeFromYear_step)
      have "YearFromTime u = y + 1"
        using False yb b2 by (intro YearFromTime_unique)
          (simp_all add: b'_def [symmetric] u_def msPerHour_def msPerDay_def)
      moreover obtain k2 where k2: "dstStartLocal (y + 1) = msPerDay * k2 + 2 * msPerHour"
          "DayFromYear (y + 1) + 66 \<le> k2"
        using dstStart_form [of "y + 1"] by blast
      moreover have "u < dstStartLocal (y + 1) + 5 * msPerHour"
        using yb k2 by (simp add: u_def b'_def TimeFromYear_def msPerHour_def msPerDay_def)
      ultimately show ?thesis by (simp add: newYork_utc)
    qed
    then have "LocalTime newYork u = tl" by (simp add: LocalTime_def u_def)
    then show ?thesis by (simp add: u)
  qed
qed

lemma ref_numbers:
  "MakeDay 2025 11 5 = 20427" "MakeDay 2025 11 6 = 20428" "MakeDay 2025 11 8 = 20430"
  "MakeDate 20427 0 = 1764892800000" "MakeDate 20430 0 = 1765152000000"
  "MakeDate 20428 (MakeTime 0 0 0 0) = 1764979200000"
  "MakeDate 20428 (MakeTime 12 0 0 0) = 1765022400000"
  "MakeDate 20428 (MakeTime 17 17 0 0) = 1765041420000"
  "MakeDate 20428 (MakeTime 16 27 0 0) = 1765038420000"
  "Day 1765022400000 = 20428" "Day 1764979200000 = 20428"
  by code_simp+

lemma newYork_december_2025:
  "constantOffsetOn newYork (- 18000000) (MakeDate (MakeDay 2025 11 5) 0) (MakeDate (MakeDay 2025 11 8) 0)"
  unfolding constantOffsetOn_def ref_numbers
proof (intro allI impI)
  fix t :: int and b :: bool
  assume r: "1764892800000 \<le> t \<and> t \<le> 1765152000000"
  have n: "TimeFromYear 2025 = 1735689600000" "TimeFromYear (2025 + 1) = 1767225600000"
    "dstStartLocal 2025 = 1741485600000" "dstEndLocal 2025 = 1762048800000"
    by code_simp+
  have y: "YearFromTime t = 2025"
    using r by (intro YearFromTime_unique) (simp_all only: n, simp_all)
  show "newYork t b = - 18000000"
    using r by (simp add: newYork_def Let_def y n msPerHour_def)
qed

lemma fields_of_20428:
  assumes "localDay tz x = 20428"
  shows "toDateParts tz x = (2025, 11, 6)"
  unfolding toDateParts_localDay assms by code_simp

section \<open>The remainder operator and the trigonometric bounds\<close>

lemma jsRem_factor:
  assumes "y \<noteq> 0"
  shows "jsRem x y = y * (x / y - of_int (if 0 \<le> x / y then \<lfloor>x / y\<rfloor> else \<lceil>x / y\<rceil>))"
  using assms by (simp add: jsRem_def algebra_simps)

lemma jsRem_nonneg:
  assumes "0 < y" "0 \<le> x"
  shows "0 \<le> jsRem x y" "jsRem x y < y"
proof -
  define q where "q = x / y"
  have q: "0 \<le> q" using assms by (simp add: q_def)
  have e: "jsRem x y = y * (q - of_int \<lfloor>q\<rfloor>)"
    using jsRem_factor [of y x] assms q by (simp add: q_def)
  have f: "0 \<le> q - of_int \<lfloor>q\<rfloor>" "q - of_int \<lfloor>q\<rfloor> < 1" by linarith+
  show "0 \<le> jsRem x y" unfolding e using assms(1) f(1) by simp
  have "y * (q - of_int \<lfloor>q\<rfloor>) < y * 1" using assms(1) f(2) by (rule mult_strict_left_mono [rotated])
  then show "jsRem x y < y" unfolding e by simp
qed

lemma jsRem_lower:
  assumes "0 < y"
  shows "- y < jsRem x y"
proof (cases "0 \<le> x")
  case True
  then show ?thesis using jsRem_nonneg(1) [of y x] assms by linarith
next
  case False
  define q where "q = x / y"
  have q: "\<not> 0 \<le> q" using assms False by (simp add: q_def zero_le_divide_iff)
  have e: "jsRem x y = y * (q - of_int \<lceil>q\<rceil>)"
    using jsRem_factor [of y x] assms q by (simp add: q_def)
  have f: "- 1 < q - of_int \<lceil>q\<rceil>" by linarith
  have "y * (- 1) < y * (q - of_int \<lceil>q\<rceil>)" using assms f by (rule mult_strict_left_mono [rotated])
  then show ?thesis unfolding e by simp
qed

lemma jsRem_normalize:
  assumes "0 < y"
  shows "0 \<le> jsRem (jsRem x y + y) y" "jsRem (jsRem x y + y) y < y"
proof -
  have "0 \<le> jsRem x y + y" using jsRem_lower [of y x] assms by linarith
  then show "0 \<le> jsRem (jsRem x y + y) y" "jsRem (jsRem x y + y) y < y"
    using jsRem_nonneg [of y "jsRem x y + y"] assms by simp_all
qed

lemma jsRem_small:
  assumes "0 < y" "0 \<le> x" "x < y"
  shows "jsRem x y = x"
proof -
  have q: "0 \<le> x / y" "x / y < 1" using assms by simp_all
  then have "\<lfloor>x / y\<rfloor> = 0" by (simp add: floor_eq_iff)
  then show ?thesis using q by (simp add: jsRem_def)
qed

lemma jsRem_shift:
  assumes "0 < y" "y \<le> x" "x < 2 * y"
  shows "jsRem x y = x - y"
proof -
  have q: "1 \<le> x / y" "x / y < 2" using assms by (simp_all add: pos_le_divide_eq pos_divide_less_eq)
  then have "\<lfloor>x / y\<rfloor> = 1" by (simp add: floor_eq_iff)
  moreover have "0 \<le> x / y" using q by linarith
  ultimately show ?thesis by (simp add: jsRem_def)
qed

lemma jsRem_small_neg:
  assumes "0 < y" "- y < x" "x \<le> 0"
  shows "jsRem x y = x"
proof (cases "x = 0")
  case True
  then show ?thesis by (simp add: jsRem_def)
next
  case False
  then have q: "x / y < 0" "- 1 < x / y" using assms by (simp_all add: divide_neg_pos pos_less_divide_eq)
  then have "\<lceil>x / y\<rceil> = 0" by (simp add: ceiling_eq_iff)
  then show ?thesis using q by (simp add: jsRem_def)
qed

lemma cos_deg_90: "cos_deg 90 = 0"
  by (simp add: cos_deg_def)

lemma sin_deg_abs: "\<bar>sin_deg x\<bar> \<le> 1"
  by (simp add: sin_deg_def)

lemma cos_deg_abs: "\<bar>cos_deg x\<bar> \<le> 1"
  by (simp add: cos_deg_def)

lemma sin_deg_neg:
  assumes "180 < L" "L < 360"
  shows "sin_deg L < 0"
proof -
  have p: "0 < pi" by simp
  have "pi < L * pi / 180" using assms(1) p by (simp add: pos_less_divide_eq)
  moreover have "L * pi / 180 < 2 * pi" using assms(2) p by (simp add: pos_divide_less_eq)
  ultimately show ?thesis unfolding sin_deg_def by (rule sin_lt_zero)
qed

lemma sin_deg_pos:
  assumes "0 < x" "x < 180"
  shows "0 < sin_deg x"
proof -
  have p: "0 < pi" by simp
  have "0 < x * pi / 180" using assms(1) p by simp
  moreover have "x * pi / 180 < pi" using assms(2) p by (simp add: pos_divide_less_eq)
  ultimately show ?thesis unfolding sin_deg_def by (rule sin_gt_zero)
qed

lemma sincos_60: "sin_deg 60 = sqrt 3 / 2" "cos_deg 60 = 1 / 2"
proof -
  have "(60::real) * pi / 180 = pi / 3" by simp
  then show "sin_deg 60 = sqrt 3 / 2" "cos_deg 60 = 1 / 2"
    by (simp_all only: sin_deg_def cos_deg_def sin_60 cos_60)
qed

lemma sin_deg_half_turn: "sin_deg 180 = 0" "sin_deg 360 = 0"
proof -
  have "(180::real) * pi / 180 = pi" "(360::real) * pi / 180 = 2 * pi" by simp_all
  then show "sin_deg 180 = 0" "sin_deg 360 = 0" unfolding sin_deg_def by simp_all
qed

lemma sin_le_cos_deg:
  assumes "0 \<le> x" "x \<le> 45"
  shows "0 \<le> sin_deg x" "sin_deg x \<le> cos_deg x" "0 < cos_deg x"
proof -
  define r where "r = x * pi / 180"
  have r: "0 \<le> r" "r \<le> pi / 4" using assms by (simp_all add: r_def)
  have p: "0 < pi" by simp
  show "0 \<le> sin_deg x" unfolding sin_deg_def r_def [symmetric]
    using r p by (intro sin_ge_zero) linarith+
  have "sin r \<le> sin (pi / 4)" using r p by (intro sin_monotone_2pi_le) linarith+
  moreover have "cos (pi / 4) \<le> cos r" using r p by (intro cos_monotone_0_pi_le) linarith+
  ultimately show "sin_deg x \<le> cos_deg x"
    unfolding sin_deg_def cos_deg_def r_def [symmetric] by (simp add: sin_45 cos_45)
  show "0 < cos_deg x" unfolding cos_deg_def r_def [symmetric]
    using r p by (intro cos_gt_zero_pi) linarith+
qed

lemma sinDec_bound: "\<bar>sinDec L\<bar> \<le> 39782 / 100000"
proof -
  have "\<bar>sin_deg L\<bar> \<le> 1" by (simp add: sin_deg_def)
  then show ?thesis by (simp add: sinDec_def abs_mult)
qed

lemma cosDec_sqrt: "cosDec L = sqrt (1 - (sinDec L)\<^sup>2)"
proof -
  have "\<bar>sinDec L\<bar> \<le> 1" using sinDec_bound [of L] by linarith
  then show ?thesis unfolding cosDec_def by (intro cos_arcsin) (simp_all add: abs_le_iff)
qed

lemma cosDec_bounds: "9 / 10 \<le> cosDec L" "cosDec L \<le> 1"
proof -
  have s: "\<bar>sinDec L\<bar> \<le> 39782 / 100000" by (rule sinDec_bound)
  have "(sinDec L)\<^sup>2 = \<bar>sinDec L\<bar>\<^sup>2" by simp
  also have "\<dots> \<le> (39782 / 100000)\<^sup>2" using s by (intro power_mono) simp_all
  finally have sq: "(sinDec L)\<^sup>2 \<le> (39782 / 100000)\<^sup>2" .
  have "(9 / 10 :: real)\<^sup>2 \<le> 1 - (sinDec L)\<^sup>2" using sq by (simp add: power2_eq_square)
  then show "9 / 10 \<le> cosDec L" unfolding cosDec_sqrt by (rule real_le_rsqrt)
  have "1 - (sinDec L)\<^sup>2 \<le> 1" by simp
  then have "sqrt (1 - (sinDec L)\<^sup>2) \<le> sqrt 1" by (rule real_sqrt_le_mono)
  then show "cosDec L \<le> 1" unfolding cosDec_sqrt by simp
qed

lemma cosH_denominator_pos:
  assumes "0 \<le> LAT cfg" "LAT cfg \<le> 45"
  shows "0 < cosDec L * cos_deg (LAT cfg)"
  using cosDec_bounds(1) [of L] sin_le_cos_deg(3) [OF assms] by (intro mult_pos_pos) linarith+

lemma cosH_horizon_bounds:
  assumes "0 \<le> LAT cfg" "LAT cfg \<le> 45"
  shows "\<bar>cosH cfg L 90\<bar> \<le> 1 / 2"
proof -
  define a where "a = sin_deg (LAT cfg)"
  define b where "b = cos_deg (LAT cfg)"
  define s where "s = sinDec L"
  define c where "c = cosDec L"
  have ab: "0 \<le> a" "a \<le> b" "0 < b" using sin_le_cos_deg [OF assms] by (simp_all add: a_def b_def)
  have s: "\<bar>s\<bar> \<le> 39782 / 100000" using sinDec_bound [of L] by (simp add: s_def)
  have c: "9 / 10 \<le> c" using cosDec_bounds(1) [of L] by (simp add: c_def)
  have e: "cosH cfg L 90 = - (s * a) / (c * b)"
    by (simp add: cosH_def cos_deg_90 a_def b_def s_def c_def)
  have den: "0 < c * b" using c ab by (intro mult_pos_pos) linarith+
  have "\<bar>s * a\<bar> = \<bar>s\<bar> * a" using ab by (simp add: abs_mult)
  also have "\<dots> \<le> (39782 / 100000) * b"
    using s ab by (intro mult_mono) linarith+
  also have "\<dots> \<le> (1 / 2) * (c * b)"
  proof -
    have "(39782 / 100000) * b \<le> ((1 / 2) * c) * b"
      using c ab by (intro mult_right_mono) linarith+
    then show ?thesis by (simp add: mult.assoc)
  qed
  finally have "\<bar>s * a\<bar> \<le> (1 / 2) * (c * b)" .
  then have le: "\<bar>s * a\<bar> / (c * b) \<le> 1 / 2" using den by (simp add: pos_divide_le_eq)
  have pos: "\<bar>c * b\<bar> = c * b" using den by (rule abs_of_pos)
  have "\<bar>cosH cfg L 90\<bar> = \<bar>s * a\<bar> / \<bar>c * b\<bar>"
    unfolding e by (simp only: abs_divide abs_minus_cancel)
  also have "\<dots> = \<bar>s * a\<bar> / (c * b)" by (simp only: pos)
  also have "\<dots> \<le> 1 / 2" by (rule le)
  finally show ?thesis .
qed

lemma bmh_LAT: "0 \<le> LAT bmh" "LAT bmh \<le> 45" "ZENITH_DEG bmh = 90"
  by (simp_all add: bmh_def)

lemma cosH_noSunset: "1 < cosH noSunsetConfig L 0"
proof -
  define s where "s = sinDec L"
  define c where "c = cosDec L"
  define a where "a = sin_deg 60"
  have s: "\<bar>s\<bar> \<le> 39782 / 100000" using sinDec_bound [of L] by (simp add: s_def)
  have c: "9 / 10 \<le> c" "c \<le> 1" using cosDec_bounds [of L] by (simp_all add: c_def)
  have a: "\<bar>a\<bar> \<le> 1" by (simp add: a_def sin_deg_def)
  have "\<bar>s * a\<bar> = \<bar>s\<bar> * \<bar>a\<bar>" by (rule abs_mult)
  also have "\<dots> \<le> (39782 / 100000) * 1" using s a by (intro mult_mono) simp_all
  finally have sa: "\<bar>s * a\<bar> \<le> 39782 / 100000" by simp
  have l: "LAT noSunsetConfig = 60" by (simp add: noSunsetConfig_def)
  have z: "cos_deg 0 = 1" by (simp add: cos_deg_def)
  have e: "cosH noSunsetConfig L 0 = (1 - s * a) / (c * (1 / 2))"
    by (simp only: cosH_def l z sincos_60(2) s_def c_def a_def)
  have den: "0 < c * (1 / 2)" using c by simp
  have "1 * (c * (1 / 2)) < 1 - s * a" using sa c by (simp add: abs_le_iff) 
  then have "1 < (1 - s * a) / (c * (1 / 2))" using den by (simp only: pos_less_divide_eq)
  then show ?thesis unfolding e .
qed

lemma altitude_sine_bound:
  assumes "\<bar>g\<bar> \<le> 1"
  shows "\<bar>g * (cosDec L * cos_deg x) + sinDec L * sin_deg x\<bar> \<le> 1"
proof -
  define c where "c = cosDec L"
  define s where "s = sinDec L"
  define a where "a = sin_deg x"
  define b where "b = cos_deg x"
  have c0: "0 \<le> c" using cosDec_bounds(1) [of L] by (simp add: c_def)
  have "\<bar>s\<bar> \<le> 1" using sinDec_bound [of L] by (simp add: s_def)
  then have "s\<^sup>2 \<le> 1" by (simp add: abs_square_le_1)
  then have cs: "c\<^sup>2 + s\<^sup>2 = 1" by (simp add: c_def s_def cosDec_sqrt)
  have ab: "a\<^sup>2 + b\<^sup>2 = 1" by (simp add: a_def b_def sin_deg_def cos_deg_def)
  have "(c * \<bar>b\<bar> + \<bar>s\<bar> * \<bar>a\<bar>)\<^sup>2 + (c * \<bar>a\<bar> - \<bar>s\<bar> * \<bar>b\<bar>)\<^sup>2 = (c\<^sup>2 + s\<^sup>2) * (a\<^sup>2 + b\<^sup>2)"
    by (simp add: power2_eq_square algebra_simps)
  then have "(c * \<bar>b\<bar> + \<bar>s\<bar> * \<bar>a\<bar>)\<^sup>2 + (c * \<bar>a\<bar> - \<bar>s\<bar> * \<bar>b\<bar>)\<^sup>2 = 1" by (simp add: cs ab)
  moreover have "0 \<le> (c * \<bar>a\<bar> - \<bar>s\<bar> * \<bar>b\<bar>)\<^sup>2" by simp
  ultimately have "(c * \<bar>b\<bar> + \<bar>s\<bar> * \<bar>a\<bar>)\<^sup>2 \<le> 1" by linarith
  then have sq: "(c * \<bar>b\<bar> + \<bar>s\<bar> * \<bar>a\<bar>)\<^sup>2 \<le> 1\<^sup>2" by simp
  have le: "c * \<bar>b\<bar> + \<bar>s\<bar> * \<bar>a\<bar> \<le> 1" by (rule power2_le_imp_le [OF sq]) simp
  have "\<bar>g * (c * b) + s * a\<bar> \<le> \<bar>g * (c * b)\<bar> + \<bar>s * a\<bar>" by (rule abs_triangle_ineq)
  also have "\<dots> = \<bar>g\<bar> * (c * \<bar>b\<bar>) + \<bar>s\<bar> * \<bar>a\<bar>" using c0 by (simp add: abs_mult)
  also have "\<dots> \<le> 1 * (c * \<bar>b\<bar>) + \<bar>s\<bar> * \<bar>a\<bar>"
    using assms c0 by (intro add_right_mono mult_right_mono) simp_all
  also have "\<dots> \<le> 1" using le by simp
  finally show ?thesis by (simp add: c_def s_def a_def b_def)
qed

lemma trueLongitude_second_turn:
  assumes "360 \<le> M + (1.916 * sin_deg M) + (0.020 * sin_deg (2 * M)) + 282.634"
    and "M + (1.916 * sin_deg M) + (0.020 * sin_deg (2 * M)) + 282.634 < 720"
  shows "trueLongitude M = M + (1.916 * sin_deg M) + (0.020 * sin_deg (2 * M)) + 282.634 - 360"
proof -
  define L where "L = M + (1.916 * sin_deg M) + (0.020 * sin_deg (2 * M)) + 282.634"
  have r: "360 \<le> L" "L < 720" using assms by (simp_all add: L_def)
  have "jsRem L 360 = L - 360" using r by (intro jsRem_shift) simp_all
  then have "jsRem (jsRem L 360 + 360) 360 = L - 360"
    using r jsRem_shift [of 360 L] by simp
  then show ?thesis by (simp add: trueLongitude_def Let_def L_def)
qed

lemma trueLongitude_bounds:
  "M + 280698 / 1000 \<le> M + (1.916 * sin_deg M) + (0.020 * sin_deg (2 * M)) + 282.634"
  "M + (1.916 * sin_deg M) + (0.020 * sin_deg (2 * M)) + 282.634 \<le> M + 284570 / 1000"
proof -
  have a: "- 1 \<le> sin_deg M" "sin_deg M \<le> 1" using sin_deg_abs [of M] by (simp_all add: abs_le_iff)
  have b: "- 1 \<le> sin_deg (2 * M)" "sin_deg (2 * M) \<le> 1"
    using sin_deg_abs [of "2 * M"] by (simp_all add: abs_le_iff)
  show "M + 280698 / 1000 \<le> M + (1.916 * sin_deg M) + (0.020 * sin_deg (2 * M)) + 282.634"
    using a b by simp
  show "M + (1.916 * sin_deg M) + (0.020 * sin_deg (2 * M)) + 282.634 \<le> M + 284570 / 1000"
    using a b by simp
qed

lemma quadrant_remainder: "0 \<le> x - of_int \<lfloor>x / 90\<rfloor> * 90" "x - of_int \<lfloor>x / 90\<rfloor> * 90 < (90::real)"
proof -
  have "of_int \<lfloor>x / 90\<rfloor> \<le> x / 90" "x / 90 < of_int \<lfloor>x / 90\<rfloor> + 1" by linarith+
  then show "0 \<le> x - of_int \<lfloor>x / 90\<rfloor> * 90" "x - of_int \<lfloor>x / 90\<rfloor> * 90 < (90::real)"
    by (simp_all add: field_simps)
qed

lemma rightAscension_quadrant:
  "of_int \<lfloor>L / 90\<rfloor> * 6 \<le> rightAscension L" "rightAscension L < of_int \<lfloor>L / 90\<rfloor> * 6 + 6"
proof -
  define RA where "RA = jsRem (jsRem (arctan (0.91764 * tan_deg L) * 180 / pi) 360 + 360) 360"
  have e: "rightAscension L = (RA + (of_int \<lfloor>L / 90\<rfloor> * 90 - of_int \<lfloor>RA / 90\<rfloor> * 90)) / 15"
    by (simp add: rightAscension_def Let_def RA_def)
  show "of_int \<lfloor>L / 90\<rfloor> * 6 \<le> rightAscension L"
    unfolding e using quadrant_remainder(1) [of RA] by simp
  show "rightAscension L < of_int \<lfloor>L / 90\<rfloor> * 6 + 6"
    unfolding e using quadrant_remainder(2) [of RA] by simp
qed

section \<open>The raw and the calibrated sunset\<close>

lemma noaaSunsetUT_None_iff:
  "noaaSunsetUT cfg tz date latDeg lngDeg zenithDeg = None \<longleftrightarrow>
     (cosH cfg (trueLongitude (meanAnomaly (approxTime (dayOfYear tz date) (lngDeg / 15)))) zenithDeg < - 1
      \<or> cosH cfg (trueLongitude (meanAnomaly (approxTime (dayOfYear tz date) (lngDeg / 15)))) zenithDeg > 1)"
  by (simp add: noaaSunsetUT_def Let_def)

lemma noaaSunsetUT_range:
  assumes "noaaSunsetUT cfg tz date latDeg lngDeg zenithDeg = Some UT"
  shows "0 \<le> UT" "UT < 24"
proof -
  obtain x where "UT = jsRem (jsRem x 24 + 24) 24"
    using assms by (auto simp add: noaaSunsetUT_def Let_def split: if_splits)
  then show "0 \<le> UT" "UT < 24" using jsRem_normalize [of 24 x] by simp_all
qed

lemma noaaSunsetUT_steps:
  assumes n: "dayOfYear tz date = N"
    and t: "approxTime N (lngDeg / 15.0) = t"
    and l: "trueLongitude (meanAnomaly t) = L"
    and c: "cosH cfg L zenithDeg = g"
    and g: "\<not> (g < - 1 \<or> g > 1)"
    and h: "arccos g * 180 / pi / 15.0 = H"
    and u: "H + rightAscension L - (0.06571 * t) - 6.622 - lngDeg / 15.0 = U"
  shows "noaaSunsetUT cfg tz date latDeg lngDeg zenithDeg = Some (jsRem (jsRem U 24 + 24) 24)"
  unfolding noaaSunsetUT_def Let_def n t l c h u using g by (simp only: if_False)

lemma raw_None_iff:
  assumes "toDateParts tz date = (year, month, day)"
  shows "getNoaaSunsetDateRaw cfg tz date latDeg lngDeg zenithDeg = None \<longleftrightarrow>
     noaaSunsetUT cfg tz (newDate tz year month day) latDeg lngDeg zenithDeg = None"
  by (simp add: getNoaaSunsetDateRaw_def assms Let_def split: option.splits)

lemma hourAngleCosine_fields:
  assumes "toDateParts tz date = (year, month, day)"
  shows "hourAngleCosine cfg tz date lngDeg zenithDeg =
     cosH cfg (trueLongitude (meanAnomaly
        (approxTime (dayOfYear tz (newDate tz year month day)) (lngDeg / 15)))) zenithDeg"
  by (simp add: hourAngleCosine_def assms)

lemma sunset_undefined_iff_aux:
  "getNoaaSunsetDateRaw cfg tz date latDeg lngDeg zenithDeg = None \<longleftrightarrow>
     (hourAngleCosine cfg tz date lngDeg zenithDeg < - 1
      \<or> hourAngleCosine cfg tz date lngDeg zenithDeg > 1)"
proof (cases "toDateParts tz date")
  case (fields year month day)
  show ?thesis
    unfolding raw_None_iff [OF fields] hourAngleCosine_fields [OF fields] noaaSunsetUT_None_iff ..
qed

lemma raw_Some_eq:
  assumes "toDateParts tz date = (year, month, day)"
    and "noaaSunsetUT cfg tz (newDate tz year month day) latDeg lngDeg zenithDeg = Some UT"
  shows "getNoaaSunsetDateRaw cfg tz date latDeg lngDeg zenithDeg =
     Some (DateUTC year month day + (\<lfloor>UT\<rfloor> * 60 + Math_round ((UT - of_int \<lfloor>UT\<rfloor>) * 60)) * 60000)"
  by (simp add: getNoaaSunsetDateRaw_def assms Let_def Math_floor_def)

lemma raw_cong:
  assumes "toDateParts tz a = toDateParts tz b"
  shows "getNoaaSunsetDateRaw cfg tz a latDeg lngDeg zenithDeg
       = getNoaaSunsetDateRaw cfg tz b latDeg lngDeg zenithDeg"
  by (simp add: getNoaaSunsetDateRaw_def assms)

lemma minutes_range:
  "0 \<le> Math_round ((UT - of_int \<lfloor>UT\<rfloor>) * 60)" "Math_round ((UT - of_int \<lfloor>UT\<rfloor>) * 60) \<le> 60"
proof -
  have f: "0 \<le> UT - of_int \<lfloor>UT\<rfloor>" "UT - of_int \<lfloor>UT\<rfloor> < 1" by linarith+
  show "0 \<le> Math_round ((UT - of_int \<lfloor>UT\<rfloor>) * 60)"
    unfolding Math_round_def using f by (intro zero_le_floor [THEN iffD2]) simp
  have "(UT - of_int \<lfloor>UT\<rfloor>) * 60 + 1 / 2 < 61" using f by simp
  then have "\<lfloor>(UT - of_int \<lfloor>UT\<rfloor>) * 60 + 1 / 2\<rfloor> < 61" by (simp add: floor_less_iff)
  then show "Math_round ((UT - of_int \<lfloor>UT\<rfloor>) * 60) \<le> 60" unfolding Math_round_def by simp
qed

lemma hours_range:
  assumes "0 \<le> UT" "UT < 24"
  shows "0 \<le> \<lfloor>UT\<rfloor>" "\<lfloor>UT\<rfloor> \<le> 23"
proof -
  show "0 \<le> \<lfloor>UT\<rfloor>" using assms(1) by simp
  have "\<lfloor>UT\<rfloor> < 24" using assms(2) by (simp add: floor_less_iff)
  then show "\<lfloor>UT\<rfloor> \<le> 23" by simp
qed

lemma HourFromTime_range: "0 \<le> HourFromTime t" "HourFromTime t < 24"
  by (simp_all add: HourFromTime_def)

lemma hourAngleCosine_horizon:
  assumes "0 \<le> LAT cfg" "LAT cfg \<le> 45"
  shows "\<bar>hourAngleCosine cfg tz date lngDeg 90\<bar> \<le> 1 / 2"
proof (cases "toDateParts tz date")
  case (fields year month day)
  show ?thesis unfolding hourAngleCosine_fields [OF fields] by (rule cosH_horizon_bounds [OF assms])
qed

lemma raw_noSunset:
  "getNoaaSunsetDateRaw noSunsetConfig tz date latDeg lngDeg 0 = None"
proof (cases "toDateParts tz date")
  case (fields year month day)
  show ?thesis
    unfolding raw_None_iff [OF fields] noaaSunsetUT_None_iff using cosH_noSunset by blast
qed

lemma raw_horizon_Some:
  assumes "0 \<le> LAT cfg" "LAT cfg \<le> 45"
  shows "\<exists>s. getNoaaSunsetDateRaw cfg tz date latDeg lngDeg 90 = Some s"
proof -
  have "\<bar>hourAngleCosine cfg tz date lngDeg 90\<bar> \<le> 1 / 2"
    by (rule hourAngleCosine_horizon [OF assms])
  then have "\<not> (hourAngleCosine cfg tz date lngDeg 90 < - 1 \<or> hourAngleCosine cfg tz date lngDeg 90 > 1)"
    by linarith
  then have "getNoaaSunsetDateRaw cfg tz date latDeg lngDeg 90 \<noteq> None"
    using sunset_undefined_iff_aux [of cfg tz date latDeg lngDeg 90] by simp
  then show ?thesis by auto
qed

lemma calibrated_None_iff:
  "getSunsetWithCalibration cfg tz off date = None \<longleftrightarrow>
     getNoaaSunsetDateRaw cfg tz date (LAT cfg) (LNG cfg) (ZENITH_DEG cfg) = None"
  by (simp add: getSunsetWithCalibration_def split: option.splits)

lemma calibrated_Some:
  assumes "getNoaaSunsetDateRaw cfg tz date (LAT cfg) (LNG cfg) (ZENITH_DEG cfg) = Some raw"
  shows "getSunsetWithCalibration cfg tz off date =
     Some (if CALIBRATION_ENABLED cfg then raw + off else raw)"
  using assms by (simp add: getSunsetWithCalibration_def)

lemma calibrated_bmh_Some: "\<exists>s. getSunsetWithCalibration bmh tz off date = Some s"
proof -
  obtain raw where "getNoaaSunsetDateRaw bmh tz date (LAT bmh) (LNG bmh) (ZENITH_DEG bmh) = Some raw"
    using raw_horizon_Some [OF bmh_LAT(1,2), of tz date "LAT bmh" "LNG bmh"] bmh_LAT(3) by auto
  then show ?thesis using calibrated_Some [of bmh tz date raw off] by simp
qed

lemma calibrated_noSunset: "getSunsetWithCalibration noSunsetConfig tz off date = None"
proof -
  have "ZENITH_DEG noSunsetConfig = 0" by (simp add: noSunsetConfig_def)
  then show ?thesis unfolding calibrated_None_iff using raw_noSunset by simp
qed

section \<open>The claims about the sunset engine\<close>

lemma latitude_argument_unused:
  "noaaSunsetUT cfg tz date latDeg lngDeg zenithDeg = noaaSunsetUT cfg tz date latDeg' lngDeg zenithDeg"
  by (simp add: noaaSunsetUT_def)

lemma raw_latitude_argument_unused:
  "getNoaaSunsetDateRaw cfg tz date latDeg lngDeg zenithDeg
     = getNoaaSunsetDateRaw cfg tz date latDeg' lngDeg zenithDeg"
  unfolding getNoaaSunsetDateRaw_def latitude_argument_unused [of cfg tz _ latDeg lngDeg zenithDeg latDeg'] ..

lemma cosH_at_LAT: "cosH cfg L zenithDeg = cosH_spec (LAT cfg) L zenithDeg"
  by (simp add: cosH_def cosH_spec_def)

lemma december_longitude:
  "252 \<le> trueLongitude (meanAnomaly (approxTime 340 (LNG bmh / 15)))"
  "trueLongitude (meanAnomaly (approxTime 340 (LNG bmh / 15))) \<le> 258"
proof -
  define M where "M = meanAnomaly (approxTime 340 (LNG bmh / 15))"
  have m: "332 \<le> M" "M \<le> 333"
    by (simp_all add: M_def meanAnomaly_def approxTime_def bmh_def)
  define L0 where "L0 = M + (1.916 * sin_deg M) + (0.020 * sin_deg (2 * M)) + 282.634"
  have b: "M + 280698 / 1000 \<le> L0" "L0 \<le> M + 284570 / 1000"
    using trueLongitude_bounds [of M] by (simp_all add: L0_def)
  have r: "360 \<le> L0" "L0 < 720" using b m by linarith+
  have e: "trueLongitude M = L0 - 360"
    using trueLongitude_second_turn [of M] r by (simp add: L0_def)
  show "252 \<le> trueLongitude (meanAnomaly (approxTime 340 (LNG bmh / 15)))"
    unfolding M_def [symmetric] e using b m by linarith
  show "trueLongitude (meanAnomaly (approxTime 340 (LNG bmh / 15))) \<le> 258"
    unfolding M_def [symmetric] e using b m by linarith
qed

lemma cosH_spec_equator:
  "cosH_spec 0 L 90 = 0"
  by (simp add: cosH_spec_def cos_deg_90 sin_deg_def)

lemma cosH_bmh_december:
  "0 < cosH bmh (trueLongitude (meanAnomaly (approxTime 340 (LNG bmh / 15)))) 90"
proof -
  define L where "L = trueLongitude (meanAnomaly (approxTime 340 (LNG bmh / 15)))"
  have l: "180 < L" "L < 360" using december_longitude by (simp_all add: L_def)
  have s: "sinDec L < 0" using sin_deg_neg [OF l] by (simp add: sinDec_def)
  have a: "0 < sin_deg (LAT bmh)" by (rule sin_deg_pos) (simp_all add: bmh_def)
  have den: "0 < cosDec L * cos_deg (LAT bmh)"
    by (rule cosH_denominator_pos [OF bmh_LAT(1,2)])
  have "sinDec L * sin_deg (LAT bmh) < 0" using s a by (rule mult_neg_pos)
  then have "0 < - (sinDec L * sin_deg (LAT bmh))" by simp
  then have "0 < - (sinDec L * sin_deg (LAT bmh)) / (cosDec L * cos_deg (LAT bmh))"
    using den by (rule divide_pos_pos)
  then show ?thesis unfolding L_def [symmetric] by (simp add: cosH_def cos_deg_90)
qed

text \<open>
  Claim C1 says that the hour-angle cosine is computed from the latitude passed as the
  argument. The function ignores the argument (\<open>latitude_argument_unused\<close>) and uses
  the constant \<open>LAT\<close>. At the call with the date 2025-12-06 (host zone New York),
  latitude 0, the program's longitude and zenith 90, the formula of the specification
  gives the cosine 0, while the cosine the program computes is positive: it is the
  formula's value for the latitude \<open>LAT\<close>, and the result is that of the call with the
  latitude \<open>LAT\<close>.
\<close>
theorem latitude_argument_ignored:
  "toDateParts newYork 1765040400000 = (2025, 11, 6)
   \<and> hourAngleCosine_spec newYork 1765040400000 0 (LNG bmh) 90 = 0
   \<and> 0 < hourAngleCosine bmh newYork 1765040400000 (LNG bmh) 90
   \<and> hourAngleCosine bmh newYork 1765040400000 (LNG bmh) 90
        = hourAngleCosine_spec newYork 1765040400000 (LAT bmh) (LNG bmh) 90
   \<and> getNoaaSunsetDateRaw bmh newYork 1765040400000 0 (LNG bmh) 90
        = getNoaaSunsetDateRaw bmh newYork 1765040400000 (LAT bmh) (LNG bmh) 90"
proof -
  have f: "toDateParts newYork 1765040400000 = (2025, 11, 6)" by code_simp
  have n: "dayOfYear newYork (newDate newYork 2025 11 6) = 340" by code_simp
  have a: "hourAngleCosine_spec newYork 1765040400000 0 (LNG bmh) 90 = 0"
    by (simp add: hourAngleCosine_spec_def f cosH_spec_equator)
  have b: "0 < hourAngleCosine bmh newYork 1765040400000 (LNG bmh) 90"
    unfolding hourAngleCosine_fields [OF f] n by (rule cosH_bmh_december)
  have c: "hourAngleCosine bmh newYork 1765040400000 (LNG bmh) 90
        = hourAngleCosine_spec newYork 1765040400000 (LAT bmh) (LNG bmh) 90"
    by (simp add: hourAngleCosine_def hourAngleCosine_spec_def cosH_at_LAT)
  show ?thesis
    using f a b c raw_latitude_argument_unused [of bmh newYork 1765040400000 0 "LNG bmh" 90 "LAT bmh"]
    by simp
qed

text \<open>
  Claim C5. \<open>getNoaaSunsetDateRaw\<close> returns no instant (\<open>null\<close>) if and only if the
  hour-angle cosine that it computes is below -1 or above 1. The function is total and
  has no effect: it is a function of its arguments and of the host's time zone, and
  none of the operations it uses can throw.
\<close>
theorem sunset_undefined_iff:
  "getNoaaSunsetDateRaw cfg tz date latDeg lngDeg zenithDeg = None \<longleftrightarrow>
     (hourAngleCosine cfg tz date lngDeg zenithDeg < - 1
      \<or> hourAngleCosine cfg tz date lngDeg zenithDeg > 1)"
  by (rule sunset_undefined_iff_aux)

theorem sunset_undefined_iff_witness:
  "getNoaaSunsetDateRaw noSunsetConfig newYork 1765040400000 60 (LNG bmh) 0 = None
   \<and> (hourAngleCosine noSunsetConfig newYork 1765040400000 (LNG bmh) 0 < - 1
        \<or> hourAngleCosine noSunsetConfig newYork 1765040400000 (LNG bmh) 0 > 1)
   \<and> getNoaaSunsetDateRaw bmh newYork 1765040400000 (LAT bmh) (LNG bmh) 90 \<noteq> None
   \<and> \<not> (hourAngleCosine bmh newYork 1765040400000 (LNG bmh) 90 < - 1
        \<or> hourAngleCosine bmh newYork 1765040400000 (LNG bmh) 90 > 1)"
proof -
  have n: "getNoaaSunsetDateRaw noSunsetConfig newYork 1765040400000 60 (LNG bmh) 0 = None"
    by (rule raw_noSunset)
  have "\<bar>hourAngleCosine bmh newYork 1765040400000 (LNG bmh) 90\<bar> \<le> 1 / 2"
    by (rule hourAngleCosine_horizon [OF bmh_LAT(1,2)])
  then have c: "\<not> (hourAngleCosine bmh newYork 1765040400000 (LNG bmh) 90 < - 1
        \<or> hourAngleCosine bmh newYork 1765040400000 (LNG bmh) 90 > 1)"
    by linarith
  show ?thesis
    using n c sunset_undefined_iff [of noSunsetConfig newYork 1765040400000 60 "LNG bmh" 0]
      sunset_undefined_iff [of bmh newYork 1765040400000 "LAT bmh" "LNG bmh" 90]
    by blast
qed

text \<open>
  Claim C7. For every date and location for which the hour-angle cosine lies in
  \<open>[-1, 1]\<close>, \<open>noaaSunsetUT\<close> returns a value: the UT hours after the normalization of
  \<open>T - lngHour\<close>, which lie in \<open>[0, 24)\<close>. \<open>getNoaaSunsetDateRaw\<close> then returns an
  instant; it lies between UTC midnight of the date and the UTC midnight after it, and
  its UTC hour is in \<open>[0, 24)\<close>.
\<close>
theorem sunset_UT_in_day:
  assumes "- 1 \<le> hourAngleCosine cfg tz date lngDeg zenithDeg"
    and "hourAngleCosine cfg tz date lngDeg zenithDeg \<le> 1"
  shows "\<exists>year month day UT inst.
           toDateParts tz date = (year, month, day)
           \<and> noaaSunsetUT cfg tz (newDate tz year month day) latDeg lngDeg zenithDeg = Some UT
           \<and> 0 \<le> UT \<and> UT < 24
           \<and> getNoaaSunsetDateRaw cfg tz date latDeg lngDeg zenithDeg = Some inst
           \<and> DateUTC year month day \<le> inst \<and> inst \<le> DateUTC year month day + msPerDay
           \<and> 0 \<le> HourFromTime inst \<and> HourFromTime inst < 24"
proof -
  obtain year month day where fields: "toDateParts tz date = (year, month, day)"
    by (cases "toDateParts tz date")
  have "noaaSunsetUT cfg tz (newDate tz year month day) latDeg lngDeg zenithDeg \<noteq> None"
    unfolding noaaSunsetUT_None_iff using assms
    unfolding hourAngleCosine_fields [OF fields] by linarith
  then obtain UT where
    ut: "noaaSunsetUT cfg tz (newDate tz year month day) latDeg lngDeg zenithDeg = Some UT"
    by auto
  have r: "0 \<le> UT" "UT < 24" using noaaSunsetUT_range [OF ut] by simp_all
  define mins where "mins = Math_round ((UT - of_int \<lfloor>UT\<rfloor>) * 60)"
  define inst where "inst = DateUTC year month day + (\<lfloor>UT\<rfloor> * 60 + mins) * 60000"
  have raw: "getNoaaSunsetDateRaw cfg tz date latDeg lngDeg zenithDeg = Some inst"
    unfolding inst_def mins_def by (rule raw_Some_eq [OF fields ut])
  have h: "0 \<le> \<lfloor>UT\<rfloor>" "\<lfloor>UT\<rfloor> \<le> 23" using hours_range [OF r] by simp_all
  have m: "0 \<le> mins" "mins \<le> 60" using minutes_range [of UT] by (simp_all add: mins_def)
  have lo: "DateUTC year month day \<le> inst" unfolding inst_def using h m by simp
  have "\<lfloor>UT\<rfloor> * 60 + mins \<le> 1440" using h m by linarith
  then have hi: "inst \<le> DateUTC year month day + msPerDay"
    unfolding inst_def msPerDay_def by simp
  show ?thesis
    using fields ut r raw lo hi HourFromTime_range [of inst] by blast
qed

theorem sunset_UT_in_day_witness:
  "- 1 \<le> hourAngleCosine bmh newYork 1765040400000 (LNG bmh) 90
   \<and> hourAngleCosine bmh newYork 1765040400000 (LNG bmh) 90 \<le> 1
   \<and> (\<exists>year month day UT inst.
           toDateParts newYork 1765040400000 = (year, month, day)
           \<and> noaaSunsetUT bmh newYork (newDate newYork year month day) (LAT bmh) (LNG bmh) 90 = Some UT
           \<and> 0 \<le> UT \<and> UT < 24
           \<and> getNoaaSunsetDateRaw bmh newYork 1765040400000 (LAT bmh) (LNG bmh) 90 = Some inst
           \<and> DateUTC year month day \<le> inst \<and> inst \<le> DateUTC year month day + msPerDay
           \<and> 0 \<le> HourFromTime inst \<and> HourFromTime inst < 24)"
proof -
  have "\<bar>hourAngleCosine bmh newYork 1765040400000 (LNG bmh) 90\<bar> \<le> 1 / 2"
    by (rule hourAngleCosine_horizon [OF bmh_LAT(1,2)])
  then have a: "- 1 \<le> hourAngleCosine bmh newYork 1765040400000 (LNG bmh) 90"
    and b: "hourAngleCosine bmh newYork 1765040400000 (LNG bmh) 90 \<le> 1"
    by linarith+
  show ?thesis using a b sunset_UT_in_day [OF a b, of "LAT bmh"] by blast
qed

lemma dayOfYear_fixedZone:
  assumes y: "y < 0 \<or> 99 < y" and m: "0 \<le> m" "m \<le> 11"
    and d: "1 \<le> ordinalDayOfYear y m d" "ordinalDayOfYear y m d \<le> DaysInYear y"
  shows "dayOfYear (fixedZone off) (newDate (fixedZone off) y m d) = ordinalDayOfYear y m d"
proof -
  define k where "k = ordinalDayOfYear y m d"
  have dm: "m div 12 = 0" "m mod 12 = m" using m by simp_all
  have md: "MakeDay y m d = DayFromYear y + k - 1"
    by (simp add: MakeDay_def Let_def dm k_def ordinalDayOfYear_def)
  have z: "MakeTime 0 0 0 0 = 0" by (simp add: MakeTime_def)
  have nd: "newDate (fixedZone off) y m d = MakeDate (DayFromYear y + k - 1) 0 - off"
    by (simp add: newDate_def fullYear_id [OF y] UTC_def fixedZone_def md z)
  have lz: "LocalTime (fixedZone off) t = t + off" for t
    by (simp add: LocalTime_def fixedZone_def)
  have lt: "LocalTime (fixedZone off) (newDate (fixedZone off) y m d) = MakeDate (DayFromYear y + k - 1) 0"
    unfolding lz nd by simp
  have dd: "Day (MakeDate (DayFromYear y + k - 1) 0) = DayFromYear y + k - 1"
    by (rule Day_MakeDate(1)) (simp_all add: msPerDay_def)
  have "DayFromYear y \<le> DayFromYear y + k - 1" using d(1) by (simp add: k_def)
  moreover have "DayFromYear y + k - 1 < DayFromYear (y + 1)"
    unfolding DayFromYear_step using d(2) by (simp add: k_def)
  ultimately have yr: "YearFromDay (DayFromYear y + k - 1) = y" by (rule YearFromDay_unique)
  have gy: "getFullYear (fixedZone off) (newDate (fixedZone off) y m d) = y"
    by (simp add: getFullYear_def lt YearFromTime_def dd yr)
  have st: "newDate (fixedZone off) y 0 0 = MakeDate (DayFromYear y - 1) 0 - off"
    by (simp add: newDate_def fullYear_id [OF y] UTC_def fixedZone_def MakeDay_def Let_def
        monthStart_def z)
  have "dayOfYear (fixedZone off) (newDate (fixedZone off) y m d)
      = (MakeDate (DayFromYear y + k - 1) 0 - MakeDate (DayFromYear y - 1) 0) div 86400000"
    by (simp add: dayOfYear_def Let_def gy st) (simp add: nd)
  also have "\<dots> = k" by (simp add: MakeDate_def msPerDay_def algebra_simps)
  finally show ?thesis by (simp add: k_def)
qed

text \<open>
  Claim C8 says that the value \<open>N\<close> of step 1 is the ordinal day of the year. In a host
  zone with daylight time it is not: for 1 July 2025 in New York, \<open>start\<close> (31 December,
  standard time) and local midnight of the date (daylight time) are 181 days and 23
  hours apart, and \<open>Math.floor\<close> drops the 23 hours. \<open>N\<close> is 181; the ordinal day is
  182. In a zone with a fixed offset \<open>dayOfYear\<close> is the ordinal day
  (\<open>dayOfYear_fixedZone\<close>).
\<close>
theorem dayOfYear_daylight_time:
  "toDateParts newYork 1751385600000 = (2025, 6, 1)
   \<and> newDate newYork 2025 6 1 - newDate newYork 2025 0 0 = 181 * msPerDay + 23 * msPerHour
   \<and> dayOfYear newYork (newDate newYork 2025 6 1) = 181
   \<and> ordinalDayOfYear 2025 6 1 = 182"
  by code_simp

lemma rollover_minutes:
  assumes "23 + 119 / 120 \<le> UT" "UT < 24"
  shows "Math_floor UT = 23" "Math_round ((UT - of_int (Math_floor UT)) * 60) = 60"
proof -
  have "23 \<le> UT" using assms(1) by simp
  then show f: "Math_floor UT = 23" unfolding Math_floor_def using assms(2) by (simp add: floor_eq_iff)
  have "60 \<le> (UT - 23) * 60 + 1 / 2" "(UT - 23) * 60 + 1 / 2 < 61" using assms by simp_all
  then have r: "\<lfloor>(UT - 23) * 60 + 1 / 2\<rfloor> = 60" by (simp add: floor_eq_iff)
  show "Math_round ((UT - of_int (Math_floor UT)) * 60) = 60"
    by (simp only: f Math_round_def of_int_numeral r)
qed

lemma rollover_instant:
  assumes f: "toDateParts tz date = (year, month, day)"
    and u: "noaaSunsetUT cfg tz (newDate tz year month day) latDeg lngDeg zenithDeg = Some UT"
    and c: "23 + 119 / 120 \<le> UT"
  shows "getNoaaSunsetDateRaw cfg tz date latDeg lngDeg zenithDeg = Some (DateUTC year month day + msPerDay)"
proof -
  have lt: "UT < 24" by (rule noaaSunsetUT_range(2) [OF u])
  have m: "\<lfloor>UT\<rfloor> = 23" using rollover_minutes(1) [OF c lt] by (simp add: Math_floor_def)
  have "Math_round ((UT - of_int (Math_floor UT)) * 60) = 60" by (rule rollover_minutes(2) [OF c lt])
  then have r: "Math_round ((UT - 23) * 60) = 60" by (simp add: Math_floor_def m)
  have "getNoaaSunsetDateRaw cfg tz date latDeg lngDeg zenithDeg
      = Some (DateUTC year month day + (23 * 60 + Math_round ((UT - 23) * 60)) * 60000)"
    unfolding raw_Some_eq [OF f u] m by simp
  then show ?thesis unfolding r by (simp add: msPerDay_def)
qed

lemma rollover_RA: "6 \<le> rightAscension 102.634" "rightAscension 102.634 < 12"
proof -
  have "\<lfloor>(102.634::real) / 90\<rfloor> = 1" by (simp add: floor_eq_iff)
  then show "6 \<le> rightAscension 102.634" "rightAscension 102.634 < 12"
    using rightAscension_quadrant [of "102.634"] by simp_all
qed

lemma rolloverH_range: "0 \<le> rolloverH" "rolloverH \<le> 12"
  using rollover_RA by (simp_all add: rolloverH_def)

lemma rollover_anomaly:
  "meanAnomaly (approxTime 185 (rolloverLng / 15)) = 180"
  "approxTime 185 (rolloverLng / 15) = 916445 / 4928"
  "rolloverLng / 15 = - 3207 / 616"
  by (simp_all add: meanAnomaly_def approxTime_def rolloverLng_def)

lemma rollover_longitude: "trueLongitude 180 = 102.634"
  using trueLongitude_second_turn [of 180] by (simp add: sin_deg_half_turn)

lemma rollover_cos_zenith:
  "cos_deg rolloverZenith
     = cos_deg (15 * rolloverH) * (cosDec 102.634 * cos_deg (LAT bmh))
       + sinDec 102.634 * sin_deg (LAT bmh)"
proof -
  define X where "X = cos_deg (15 * rolloverH) * (cosDec 102.634 * cos_deg (LAT bmh))
       + sinDec 102.634 * sin_deg (LAT bmh)"
  have "\<bar>X\<bar> \<le> 1" unfolding X_def by (rule altitude_sine_bound [OF cos_deg_abs])
  then have x: "- 1 \<le> X" "X \<le> 1" by (simp_all add: abs_le_iff)
  have "arccos X * 180 / pi * pi / 180 = arccos X" by simp
  then have "cos_deg (arccos X * 180 / pi) = cos (arccos X)" by (simp only: cos_deg_def)
  also have "\<dots> = X" by (rule cos_arccos [OF x])
  finally show ?thesis by (simp only: rolloverZenith_def X_def)
qed

lemma rollover_cosH:
  "cosH bmh 102.634 rolloverZenith = cos_deg (15 * rolloverH)"
proof -
  define D where "D = cosDec 102.634 * cos_deg (LAT bmh)"
  define S where "S = sinDec 102.634 * sin_deg (LAT bmh)"
  define g where "g = cos_deg (15 * rolloverH)"
  have "0 < D" unfolding D_def by (rule cosH_denominator_pos [OF bmh_LAT(1,2)])
  then have D: "D \<noteq> 0" by simp
  have "cosH bmh 102.634 rolloverZenith = (g * D + S - S) / D"
    by (simp only: cosH_def rollover_cos_zenith D_def S_def g_def)
  also have "\<dots> = g" using D by simp
  finally show ?thesis by (simp only: g_def)
qed

lemma rollover_hour_angle:
  "arccos (cos_deg (15 * rolloverH)) * 180 / pi / 15.0 = rolloverH"
proof -
  define th where "th = 15 * rolloverH * pi / 180"
  have p: "0 < pi" by simp
  have "0 \<le> th" using rolloverH_range(1) p by (simp add: th_def)
  moreover have "th \<le> pi"
  proof -
    have "15 * rolloverH \<le> 180" using rolloverH_range(2) by simp
    then have "15 * rolloverH * pi \<le> 180 * pi" using p by (simp only: mult_le_cancel_right_pos)
    then show ?thesis by (simp add: th_def)
  qed
  ultimately have "arccos (cos th) = th" by (rule arccos_cos)
  then have e: "arccos (cos_deg (15 * rolloverH)) = th" by (simp only: cos_deg_def th_def)
  show ?thesis unfolding e th_def by simp
qed

lemma rollover_UT:
  "noaaSunsetUT bmh newYork (newDate newYork 2025 6 5) latDeg rolloverLng rolloverZenith
     = Some (5759 / 240)"
proof -
  have n: "dayOfYear newYork (newDate newYork 2025 6 5) = 185" by code_simp
  have t: "approxTime 185 (rolloverLng / 15.0) = 916445 / 4928"
    by (simp add: approxTime_def rolloverLng_def)
  have "meanAnomaly (916445 / 4928) = 180" by (simp add: meanAnomaly_def)
  then have l: "trueLongitude (meanAnomaly (916445 / 4928)) = 102.634"
    by (simp only: rollover_longitude)
  have g: "\<not> (cos_deg (15 * rolloverH) < - 1 \<or> cos_deg (15 * rolloverH) > 1)"
    using cos_deg_abs [of "15 * rolloverH"] by (simp add: abs_le_iff not_less)
  have u: "rolloverH + rightAscension 102.634 - (0.06571 * (916445 / 4928)) - 6.622
             - rolloverLng / 15.0 = - 1 / 240"
    by (simp add: rolloverH_def rolloverLng_def)
  have j1: "jsRem (- 1 / 240) 24 = - 1 / 240" by (rule jsRem_small_neg) simp_all
  have j2: "jsRem (- 1 / 240 + 24) 24 = 5759 / 240"
    using jsRem_small [of 24 "- 1 / 240 + 24"] by simp
  show ?thesis
    unfolding noaaSunsetUT_steps [OF n t l rollover_cosH g rollover_hour_angle u] j1 j2 ..
qed

text \<open>
  Claim C10. When the normalized UT is within half a minute of 24, \<open>Math.floor\<close> gives
  the hour 23 and \<open>Math.round\<close> gives 60 minutes, so the instant that
  \<open>getNoaaSunsetDateRaw\<close> builds is UTC midnight of the date plus a full 24 hours:
  it falls on the next UTC calendar day. There is an input for which the sunset is
  computable and this happens (5 July 2025 in New York, longitude \<open>rolloverLng\<close>,
  zenith \<open>rolloverZenith\<close>; the UT is 24 hours minus a quarter of a minute).
\<close>
theorem raw_sunset_next_day:
  "(toDateParts tz date = (year, month, day)
      \<and> noaaSunsetUT cfg tz (newDate tz year month day) latDeg lngDeg zenithDeg = Some UT
      \<and> 23 + 119 / 120 \<le> UT
    \<longrightarrow> Math_floor UT = 23
      \<and> Math_round ((UT - of_int (Math_floor UT)) * 60) = 60
      \<and> getNoaaSunsetDateRaw cfg tz date latDeg lngDeg zenithDeg
           = Some (DateUTC year month day + msPerDay))
   \<and> (\<exists>d lng zen y m dd.
         toDateParts newYork d = (y, m, dd)
         \<and> getNoaaSunsetDateRaw bmh newYork d (LAT bmh) lng zen = Some (DateUTC y m dd + msPerDay))"
proof -
  have f: "toDateParts newYork 1751731200000 = (2025, 6, 5)" by code_simp
  have u: "noaaSunsetUT bmh newYork (newDate newYork 2025 6 5) (LAT bmh) rolloverLng rolloverZenith
     = Some (5759 / 240)" by (rule rollover_UT)
  have "getNoaaSunsetDateRaw bmh newYork 1751731200000 (LAT bmh) rolloverLng rolloverZenith
      = Some (DateUTC 2025 6 5 + msPerDay)"
    by (rule rollover_instant [OF f u]) simp
  then have ex: "\<exists>d lng zen y m dd.
         toDateParts newYork d = (y, m, dd)
         \<and> getNoaaSunsetDateRaw bmh newYork d (LAT bmh) lng zen = Some (DateUTC y m dd + msPerDay)"
    using f by blast
  have "Math_floor UT = 23
      \<and> Math_round ((UT - of_int (Math_floor UT)) * 60) = 60
      \<and> getNoaaSunsetDateRaw cfg tz date latDeg lngDeg zenithDeg
           = Some (DateUTC year month day + msPerDay)"
    if a: "toDateParts tz date = (year, month, day)"
      and b: "noaaSunsetUT cfg tz (newDate tz year month day) latDeg lngDeg zenithDeg = Some UT"
      and c: "23 + 119 / 120 \<le> UT"
    using rollover_minutes [OF c noaaSunsetUT_range(2) [OF b]] rollover_instant [OF a b c]
    by simp
  then show ?thesis using ex by blast
qed

theorem raw_sunset_next_day_witness:
  "toDateParts newYork 1751731200000 = (2025, 6, 5)
   \<and> noaaSunsetUT bmh newYork (newDate newYork 2025 6 5) (LAT bmh) rolloverLng rolloverZenith
       = Some (5759 / 240)
   \<and> 23 + 119 / 120 \<le> (5759 / 240 :: real)
   \<and> Math_floor (5759 / 240) = 23
   \<and> Math_round ((5759 / 240 - of_int (Math_floor (5759 / 240))) * 60) = 60
   \<and> getNoaaSunsetDateRaw bmh newYork 1751731200000 (LAT bmh) rolloverLng rolloverZenith
       = Some (DateUTC 2025 6 5 + msPerDay)
   \<and> DateUTC 2025 6 5 + msPerDay = DateUTC 2025 6 6"
proof -
  have f: "toDateParts newYork 1751731200000 = (2025, 6, 5)" by code_simp
  have u: "noaaSunsetUT bmh newYork (newDate newYork 2025 6 5) (LAT bmh) rolloverLng rolloverZenith
     = Some (5759 / 240)" by (rule rollover_UT)
  have c: "23 + 119 / 120 \<le> (5759 / 240 :: real)" by simp
  have d: "DateUTC 2025 6 5 + msPerDay = DateUTC 2025 6 6" by code_simp
  show ?thesis
    using f u c d
      raw_sunset_next_day [of newYork 1751731200000 2025 6 5 bmh "LAT bmh" rolloverLng
        rolloverZenith "5759 / 240"]
    by blast
qed

section \<open>The claims about the calibration\<close>

lemma offset_disabled:
  assumes "\<not> CALIBRATION_ENABLED cfg"
  shows "computeCalibrationOffsetMs cfg tz = 0"
  using assms by (simp add: computeCalibrationOffsetMs_def)

lemma offset_None:
  assumes "theoreticalSunset cfg tz = None"
  shows "computeCalibrationOffsetMs cfg tz = 0"
  using assms by (simp add: computeCalibrationOffsetMs_def theoreticalSunset_def Let_def)

lemma offset_Some:
  assumes "CALIBRATION_ENABLED cfg" "theoreticalSunset cfg tz = Some s"
  shows "computeCalibrationOffsetMs cfg tz = impliedSunset cfg tz - s"
  using assms
  by (simp add: computeCalibrationOffsetMs_def theoreticalSunset_def impliedSunset_def Let_def)

lemma theoretical_bmh_Some: "\<exists>s. theoreticalSunset (bmh \<lparr> CALIBRATION_ENABLED := b \<rparr>) tz = Some s"
proof -
  have a: "0 \<le> LAT (bmh \<lparr> CALIBRATION_ENABLED := b \<rparr>)" "LAT (bmh \<lparr> CALIBRATION_ENABLED := b \<rparr>) \<le> 45"
    "ZENITH_DEG (bmh \<lparr> CALIBRATION_ENABLED := b \<rparr>) = 90"
    by (simp_all add: bmh_def)
  show ?thesis
    unfolding theoreticalSunset_def a(3) by (rule raw_horizon_Some [OF a(1,2)])
qed

lemma theoretical_noSunset: "theoreticalSunset noSunsetConfig tz = None"
proof -
  have "ZENITH_DEG noSunsetConfig = 0" by (simp add: noSunsetConfig_def)
  then show ?thesis unfolding theoreticalSunset_def using raw_noSunset by simp
qed

lemma bmh_enabled: "CALIBRATION_ENABLED bmh"
  by (simp add: bmh_def)

lemma bmh_flag_update: "bmh \<lparr> CALIBRATION_ENABLED := True \<rparr> = bmh"
  by (simp add: bmh_def)

text \<open>
  Claim C6. \<open>computeCalibrationOffsetMs\<close> returns 0 whenever the flag
  \<open>CALIBRATION_ENABLED\<close> is false, whether or not the sunset of the reference date is
  computable; it returns 0 whenever the engine returns no sunset for the reference
  date; otherwise it returns the implied sunset minus the theoretical sunset.
\<close>
theorem calibration_offset_cases:
  "(\<not> CALIBRATION_ENABLED cfg \<longrightarrow> computeCalibrationOffsetMs cfg tz = 0)
   \<and> (theoreticalSunset cfg tz = None \<longrightarrow> computeCalibrationOffsetMs cfg tz = 0)
   \<and> (\<forall>s. CALIBRATION_ENABLED cfg \<and> theoreticalSunset cfg tz = Some s \<longrightarrow>
         computeCalibrationOffsetMs cfg tz = impliedSunset cfg tz - s)"
  using offset_disabled [of cfg tz] offset_None [of cfg tz] offset_Some [of cfg tz] by blast

theorem calibration_offset_cases_witness:
  "\<not> CALIBRATION_ENABLED (bmh \<lparr> CALIBRATION_ENABLED := False \<rparr>)
   \<and> (\<exists>s. theoreticalSunset (bmh \<lparr> CALIBRATION_ENABLED := False \<rparr>) newYork = Some s)
   \<and> computeCalibrationOffsetMs (bmh \<lparr> CALIBRATION_ENABLED := False \<rparr>) newYork = 0
   \<and> theoreticalSunset noSunsetConfig newYork = None
   \<and> computeCalibrationOffsetMs noSunsetConfig newYork = 0
   \<and> CALIBRATION_ENABLED bmh
   \<and> impliedSunset bmh newYork = 1765056420000
   \<and> (\<exists>s. theoreticalSunset bmh newYork = Some s
         \<and> computeCalibrationOffsetMs bmh newYork = 1765056420000 - s)"
proof -
  have off: "\<not> CALIBRATION_ENABLED (bmh \<lparr> CALIBRATION_ENABLED := False \<rparr>)" by simp
  have t1: "\<exists>s. theoreticalSunset (bmh \<lparr> CALIBRATION_ENABLED := False \<rparr>) newYork = Some s"
    by (rule theoretical_bmh_Some)
  have n: "theoreticalSunset noSunsetConfig newYork = None" by (rule theoretical_noSunset)
  obtain s where s: "theoreticalSunset bmh newYork = Some s"
    using theoretical_bmh_Some [of True newYork] by (auto simp add: bmh_flag_update)
  have i: "impliedSunset bmh newYork = 1765056420000" by code_simp
  show ?thesis
    using off t1 n s i bmh_enabled
      calibration_offset_cases [of "bmh \<lparr> CALIBRATION_ENABLED := False \<rparr>" newYork]
      calibration_offset_cases [of noSunsetConfig newYork]
      calibration_offset_cases [of bmh newYork]
    by auto
qed

lemma bmh_reference:
  "REFERENCE_SHABBOS bmh = (2025, 12, 6)" "REFERENCE_MOTZAEI_MAARIV bmh = (17, 17)"
  "REFERENCE_MAARIV_OFFSET_MIN bmh = 50"
  by (simp_all add: bmh_def)

lemma reference_day_constant_offset:
  assumes c: "constantOffsetOn tz off (MakeDate (MakeDay 2025 11 5) 0) (MakeDate (MakeDay 2025 11 8) 0)"
    and o: "\<bar>off\<bar> \<le> msPerDay"
  shows "toDateParts tz (parseLocalDateTime tz (2025, 12, 6) 12 0 0) = (2025, 11, 6)"
    and "impliedSunset bmh tz = 1765038420000 - off"
    and "LocalTime tz (impliedSunset bmh tz) = MakeDate (MakeDay 2025 11 6) (MakeTime 16 27 0 0)"
proof -
  have w: "tz t b = off" if "1764892800000 \<le> t" "t \<le> 1765152000000" for t b
    using c that unfolding constantOffsetOn_def ref_numbers by blast
  have o': "- 86400000 \<le> off" "off \<le> 86400000" using o by (simp_all add: msPerDay_def abs_le_iff)
  have u: "UTC tz t = t - off" if "1764892800000 \<le> t" "t \<le> 1765152000000" for t
    by (simp add: UTC_def w [OF that])
  have l: "LocalTime tz t = t + off" if "1764892800000 \<le> t" "t \<le> 1765152000000" for t
    by (simp add: LocalTime_def w [OF that])
  have noon: "parseLocalDateTime tz (2025, 12, 6) 12 0 0 = 1765022400000 - off"
    by (simp add: parseLocalDateTime_def ref_numbers u)
  have "LocalTime tz (1765022400000 - off) = 1765022400000"
    using l [of "1765022400000 - off"] o' by simp
  then have "localDay tz (parseLocalDateTime tz (2025, 12, 6) 12 0 0) = 20428"
    by (simp add: localDay_def noon ref_numbers)
  then show "toDateParts tz (parseLocalDateTime tz (2025, 12, 6) 12 0 0) = (2025, 11, 6)"
    by (rule fields_of_20428)
  have midnight: "parseLocalDateTime tz (2025, 12, 6) 0 0 0 = 1764979200000 - off"
    by (simp add: parseLocalDateTime_def ref_numbers u)
  have lm: "LocalTime tz (1764979200000 - off) = 1764979200000"
    using l [of "1764979200000 - off"] o' by simp
  have maariv: "parseLocalTimeOnDate tz (2025, 12, 6) (17, 17) = 1765041420000 - off"
    by (simp add: parseLocalTimeOnDate_def Let_def midnight setHours_def lm ref_numbers u)
  show i: "impliedSunset bmh tz = 1765038420000 - off"
    by (simp add: impliedSunset_def bmh_reference maariv)
  show "LocalTime tz (impliedSunset bmh tz) = MakeDate (MakeDay 2025 11 6) (MakeTime 16 27 0 0)"
    unfolding i ref_numbers using l [of "1765038420000 - off"] o' by simp
qed

lemma calibrated_on_reference_day:
  assumes c: "constantOffsetOn tz off (MakeDate (MakeDay 2025 11 5) 0) (MakeDate (MakeDay 2025 11 8) 0)"
    and o: "\<bar>off\<bar> \<le> msPerDay"
    and d: "toDateParts tz date = (2025, 11, 6)"
  shows "getSunsetWithCalibration bmh tz (computeCalibrationOffsetMs bmh tz) date
       = Some (impliedSunset bmh tz)"
proof -
  obtain s where s: "theoreticalSunset bmh tz = Some s"
    using theoretical_bmh_Some [of True tz] by (auto simp add: bmh_flag_update)
  have same: "toDateParts tz (parseLocalDateTime tz (REFERENCE_SHABBOS bmh) 12 0 0) = toDateParts tz date"
    unfolding bmh_reference d by (rule reference_day_constant_offset(1) [OF c o])
  have raw: "getNoaaSunsetDateRaw bmh tz date (LAT bmh) (LNG bmh) (ZENITH_DEG bmh) = Some s"
    using s unfolding theoreticalSunset_def raw_cong [OF same] .
  have "computeCalibrationOffsetMs bmh tz = impliedSunset bmh tz - s"
    by (rule offset_Some [OF bmh_enabled s])
  then show ?thesis
    using calibrated_Some [OF raw, of "computeCalibrationOffsetMs bmh tz"] bmh_enabled by simp
qed

text \<open>
  Claim C2. Calibration round trip. Whenever the theoretical sunset of the reference
  date is computable (with the calibration enabled, as the program has it), the
  theoretical sunset plus the computed offset plus the minutes from sunset to the
  observed event is the observed event's local time, to the millisecond. With the
  program's constants (2025-12-06, 17:17, 50 minutes), in a host zone whose offset does
  not change from 5 to 8 December 2025, the calibrated sunset of any time value on the
  local day 2025-12-06 is the instant that reads 16:27 local time on that day.
\<close>
theorem calibration_roundtrip:
  "(\<forall>s. CALIBRATION_ENABLED cfg \<and> theoreticalSunset cfg tz = Some s \<longrightarrow>
       s + computeCalibrationOffsetMs cfg tz + REFERENCE_MAARIV_OFFSET_MIN cfg * 60000
         = parseLocalTimeOnDate tz (REFERENCE_SHABBOS cfg) (REFERENCE_MOTZAEI_MAARIV cfg))
   \<and> (constantOffsetOn tz off (MakeDate (MakeDay 2025 11 5) 0) (MakeDate (MakeDay 2025 11 8) 0)
        \<and> \<bar>off\<bar> \<le> msPerDay \<and> toDateParts tz date = (2025, 11, 6) \<longrightarrow>
       (\<exists>s. getSunsetWithCalibration bmh tz (computeCalibrationOffsetMs bmh tz) date = Some s
          \<and> LocalTime tz s = MakeDate (MakeDay 2025 11 6) (MakeTime 16 27 0 0)))"
proof -
  have "s + computeCalibrationOffsetMs cfg tz + REFERENCE_MAARIV_OFFSET_MIN cfg * 60000
         = parseLocalTimeOnDate tz (REFERENCE_SHABBOS cfg) (REFERENCE_MOTZAEI_MAARIV cfg)"
    if "CALIBRATION_ENABLED cfg" "theoreticalSunset cfg tz = Some s" for s
    unfolding offset_Some [OF that] by (simp add: impliedSunset_def)
  then show ?thesis
    using calibrated_on_reference_day [of tz off date] reference_day_constant_offset(3) [of tz off]
    by blast
qed

theorem calibration_roundtrip_witness:
  "CALIBRATION_ENABLED bmh
   \<and> (\<exists>s. theoreticalSunset bmh newYork = Some s
        \<and> s + computeCalibrationOffsetMs bmh newYork + REFERENCE_MAARIV_OFFSET_MIN bmh * 60000
            = parseLocalTimeOnDate newYork (REFERENCE_SHABBOS bmh) (REFERENCE_MOTZAEI_MAARIV bmh))
   \<and> constantOffsetOn newYork (- 18000000) (MakeDate (MakeDay 2025 11 5) 0) (MakeDate (MakeDay 2025 11 8) 0)
   \<and> \<bar>- 18000000\<bar> \<le> msPerDay
   \<and> toDateParts newYork 1765040400000 = (2025, 11, 6)
   \<and> (\<exists>s. getSunsetWithCalibration bmh newYork (computeCalibrationOffsetMs bmh newYork) 1765040400000 = Some s
        \<and> LocalTime newYork s = MakeDate (MakeDay 2025 11 6) (MakeTime 16 27 0 0))"
proof -
  obtain s where s: "theoreticalSunset bmh newYork = Some s"
    using theoretical_bmh_Some [of True newYork] by (auto simp add: bmh_flag_update)
  have o: "\<bar>- 18000000\<bar> \<le> msPerDay" by (simp add: msPerDay_def)
  have d: "toDateParts newYork 1765040400000 = (2025, 11, 6)" by code_simp
  show ?thesis
    using s o d bmh_enabled newYork_december_2025
      calibration_roundtrip [of bmh newYork "- 18000000" 1765040400000]
    by blast
qed

section \<open>The claims about the schedules\<close>

lemma collect_loop:
  "foldl (\<lambda>acc i. case f i of None \<Rightarrow> acc | Some s \<Rightarrow> acc @ [s]) acc xs
     = acc @ List.map_filter f xs"
  by (induction xs arbitrary: acc) (simp_all add: List.map_filter_simps split: option.splits)

lemma weekdaySunsets_eq:
  "weekdaySunsets cfg tz off (getSundayOfWeek tz today)
     = computedSunsets cfg tz off (weekdayDates tz today)"
proof -
  define f where "f = (\<lambda>i. getSunsetWithCalibration cfg tz off
     (setDate tz (getSundayOfWeek tz today) (getDate tz (getSundayOfWeek tz today) + i)))"
  have "weekdaySunsets cfg tz off (getSundayOfWeek tz today)
      = foldl (\<lambda>acc i. case f i of None \<Rightarrow> acc | Some s \<Rightarrow> acc @ [s]) [] [0, 1, 2, 3, 4]"
    by (simp only: weekdaySunsets_def Let_def f_def)
  also have "\<dots> = List.map_filter f [0, 1, 2, 3, 4]"
    by (simp only: collect_loop append_Nil)
  also have "\<dots> = computedSunsets cfg tz off (weekdayDates tz today)"
    by (simp add: computedSunsets_def weekdayDates_def f_def List.map_filter_def comp_def)
  finally show ?thesis .
qed

lemma earliestLoop_fold: "earliestLoop e xs = fold min xs e"
proof (induction xs arbitrary: e)
  case Nil
  show ?case by simp
next
  case (Cons s ss)
  have "(if s < e then s else e) = min s e" by (simp add: min_def)
  then show ?case using Cons by simp
qed

lemma earliestLoop_Min: "earliestLoop s0 (s0 # rest) = Min (set (s0 # rest))"
proof -
  have "earliestLoop s0 (s0 # rest) = fold min rest s0" by (simp add: earliestLoop_fold)
  then show ?thesis by (simp only: Min.set_eq_fold)
qed

lemma weekdayMinchaTime_eq:
  "weekdayMinchaTime cfg tz off today =
     (case computedSunsets cfg tz off (weekdayDates tz today) of
        [] \<Rightarrow> Inl (Error ''No sunsets computed'')
      | s # ss \<Rightarrow> Inr (Min (set (s # ss)) - 15 * 60000))"
proof (cases "computedSunsets cfg tz off (weekdayDates tz today)")
  case Nil
  show ?thesis unfolding weekdayMinchaTime_def Let_def weekdaySunsets_eq Nil by simp
next
  case (Cons s ss)
  show ?thesis
    unfolding weekdayMinchaTime_def Let_def weekdaySunsets_eq Cons list.case earliestLoop_Min
    by simp
qed

lemma computedSunsets_empty_iff:
  "computedSunsets cfg tz off ds = [] \<longleftrightarrow>
     (\<forall>d \<in> set ds. getSunsetWithCalibration cfg tz off d = None)"
  by (induction ds) (simp_all add: computedSunsets_def List.map_filter_simps split: option.splits)

lemma weekday_dates_and_failure:
  assumes "tzDayStable tz"
  shows "map (localDay tz) (weekdayDates tz today)
           = map (\<lambda>i. localDay tz today - getDay tz today + i) [0, 1, 2, 3, 4]
     \<and> map (getDay tz) (weekdayDates tz today) = [0, 1, 2, 3, 4]
     \<and> ((\<exists>e. weekdayMinchaTime cfg tz off today = Inl e) \<longleftrightarrow>
          (\<forall>d \<in> set (weekdayDates tz today). getSunsetWithCalibration cfg tz off d = None))"
proof -
  have "(\<exists>e. weekdayMinchaTime cfg tz off today = Inl e)
      \<longleftrightarrow> computedSunsets cfg tz off (weekdayDates tz today) = []"
    unfolding weekdayMinchaTime_eq by (simp split: list.splits)
  then show ?thesis
    using weekdayDates_localDay [OF assms] weekdayDates_getDay [OF assms]
      computedSunsets_empty_iff [of cfg tz off]
    by simp
qed


















text \<open>
  Claim C4. In a day-stable zone, \<open>getComingShabbos\<close> returns a time value whose local
  day is a Saturday. From a Saturday with local hour at least 18 it is the Saturday 7
  days later; from a Saturday with local hour below 18 it is the same day; from any other
  day it is the next Saturday (1 to 6 days later).
\<close>
theorem coming_shabbos:
  assumes "tzDayStable tz"
  shows "getDay tz (getComingShabbos tz d) = 6
     \<and> (getDay tz d = 6 \<and> 18 \<le> getHours tz d \<longrightarrow>
          localDay tz (getComingShabbos tz d) = localDay tz d + 7)
     \<and> (getDay tz d = 6 \<and> getHours tz d < 18 \<longrightarrow>
          localDay tz (getComingShabbos tz d) = localDay tz d)
     \<and> (getDay tz d \<noteq> 6 \<longrightarrow>
          localDay tz (getComingShabbos tz d) = localDay tz d + (6 - getDay tz d)
          \<and> localDay tz d < localDay tz (getComingShabbos tz d)
          \<and> localDay tz (getComingShabbos tz d) \<le> localDay tz d + 6)"
proof -
  define wd where "wd = getDay tz d"
  define x where "x = localDay tz d"
  have r: "0 \<le> wd" "wd \<le> 6" using getDay_range [of tz d] by (simp_all add: wd_def)
  have wd: "wd = (x + 4) mod 7" by (simp add: wd_def x_def getDay_localDay)
  have l: "localDay tz (getComingShabbos tz d)
       = x + (if wd = 6 \<and> 18 \<le> getHours tz d then 7 else 6 - wd)"
    unfolding wd_def x_def by (rule getComingShabbos_localDay [OF assms])
  have six: "(x + (6 - wd) + 4) mod 7 = 6"
  proof -
    have "x + (6 - wd) + 4 = x - (x + 4) mod 7 + 4 + 6" by (simp add: wd)
    then show ?thesis using week_start_mod [of x 6] by simp
  qed
  have "x + 7 + 4 = (x + 4) + 7" by simp
  then have seven: "(x + 7 + 4) mod 7 = (x + 4) mod 7" by (simp only: mod_add_self2)
  have g: "getDay tz (getComingShabbos tz d) = 6"
    unfolding getDay_localDay [of tz "getComingShabbos tz d"] l
    using six seven wd by (simp split: if_splits)
  show ?thesis
    using g l r unfolding wd_def [symmetric] x_def [symmetric] by auto
qed

theorem coming_shabbos_witness:
  "tzDayStable newYork
   \<and> getDay newYork 1765065600000 = 6 \<and> 18 \<le> getHours newYork 1765065600000
   \<and> getDay newYork (getComingShabbos newYork 1765065600000) = 6
   \<and> localDay newYork (getComingShabbos newYork 1765065600000) = localDay newYork 1765065600000 + 7
   \<and> getDay newYork 1765040400000 = 6 \<and> getHours newYork 1765040400000 < 18
   \<and> localDay newYork (getComingShabbos newYork 1765040400000) = localDay newYork 1765040400000
   \<and> getDay newYork 1764774000000 \<noteq> 6
   \<and> localDay newYork (getComingShabbos newYork 1764774000000) = localDay newYork 1764774000000 + 3"
proof -
  have a: "getDay newYork 1765065600000 = 6" "18 \<le> getHours newYork 1765065600000"
    by code_simp+
  have b: "getDay newYork 1765040400000 = 6" "getHours newYork 1765040400000 < 18"
    by code_simp+
  have c: "getDay newYork 1764774000000 = 3" by code_simp
  show ?thesis
    using a b c newYork_stable
      coming_shabbos [OF newYork_stable, of 1765065600000]
      coming_shabbos [OF newYork_stable, of 1765040400000]
      coming_shabbos [OF newYork_stable, of 1764774000000]
    by simp
qed

text \<open>
  Claim C9. When the calibrated sunset of the selected Shabbos is computable, the
  Shabbos schedule is three instants derived from that one sunset: erev Shabbos Mincha
  15 minutes before it, Shabbos day Mincha 45 minutes before it and Motzaei Shabbos
  Maariv 50 minutes after it. When the calibrated sunset is not computable the schedule
  fails (the error \<open>No Shabbos sunset\<close> is thrown, and caught by the function itself).
\<close>
theorem shabbos_schedule:
  "(\<forall>sunset. getSunsetWithCalibration cfg tz off (getComingShabbos tz today) = Some sunset \<longrightarrow>
      shabbosTimes cfg tz off today
        = Inr (sunset - 15 * 60000, sunset - 45 * 60000, sunset + 50 * 60000))
   \<and> (getSunsetWithCalibration cfg tz off (getComingShabbos tz today) = None \<longrightarrow>
      shabbosTimes cfg tz off today = Inl (Error ''No Shabbos sunset''))"
  by (simp add: shabbosTimes_def Let_def)

theorem shabbos_schedule_witness:
  "(\<exists>sunset. getSunsetWithCalibration bmh newYork 0 (getComingShabbos newYork 1765040400000) = Some sunset
      \<and> shabbosTimes bmh newYork 0 1765040400000
          = Inr (sunset - 15 * 60000, sunset - 45 * 60000, sunset + 50 * 60000))
   \<and> getSunsetWithCalibration noSunsetConfig newYork 0 (getComingShabbos newYork 1765040400000) = None
   \<and> shabbosTimes noSunsetConfig newYork 0 1765040400000 = Inl (Error ''No Shabbos sunset'')"
proof -
  obtain sunset where
    s: "getSunsetWithCalibration bmh newYork 0 (getComingShabbos newYork 1765040400000) = Some sunset"
    using calibrated_bmh_Some by blast
  have n: "getSunsetWithCalibration noSunsetConfig newYork 0 (getComingShabbos newYork 1765040400000) = None"
    by (rule calibrated_noSunset)
  show ?thesis
    using s n shabbos_schedule [of bmh newYork 0 1765040400000]
      shabbos_schedule [of noSunsetConfig newYork 0 1765040400000]
    by blast
qed

end
